theory Spec2Isabelle
  imports Complex_Main
begin

chapter \<open>Multi-fidelity batch Bayesian optimisation: the controller of bayes_op.py\<close>

text \<open>
  A shallow embedding of the acquisition-and-batching controller of \<^verbatim>\<open>src/bayes_op.py\<close>.
  The Gaussian-process engine, the environment and the random number generator are not
  part of that file: wherever the controller reads one of them, the value read is an
  argument of the embedded function. Finite floats are modelled as reals, rounding aside;
  the infinities and NaN that the tensor arithmetic of \<^verbatim>\<open>build_af\<close> yields instead of
  raising are values of their own, and the halving of the trust-region length underflows
  as a double does. Python integers are \<open>int\<close> or, where they are list lengths and indices
  that the code never makes negative, \<open>nat\<close>. Every raise of the source is a value of
  \<open>py_error\<close>.
\<close>

section \<open>Errors and list access\<close>

datatype py_error =
    IndexError      \<comment> \<open>a list or tensor index out of range\<close>
  | TypeError       \<comment> \<open>for instance iterating over an int\<close>
  | ValueError      \<comment> \<open>for instance \<^verbatim>\<open>max\<close> of an empty sequence, or arrays that do not fit\<close>
  | RuntimeError    \<comment> \<open>torch: shapes that do not broadcast, a reduction of nothing\<close>
  | NameError       \<comment> \<open>a local variable read before any assignment\<close>
  | ZeroDivisionError

text \<open>
  Indexing a sequence of length \<open>n\<close> with an integer \<open>i\<close>: an index from \<open>-n\<close> up to \<open>-1\<close>
  counts from the end, anything outside \<open>[-n, n)\<close> raises. Lists, numpy arrays and torch
  tensors agree on this.
\<close>

definition in_range :: "nat \<Rightarrow> int \<Rightarrow> bool" where
  "in_range n i = (- int n \<le> i \<and> i < int n)"

definition wrap :: "nat \<Rightarrow> int \<Rightarrow> nat" where
  "wrap n i = (if i < 0 then nat (int n + i) else nat i)"

definition py_get :: "'a list \<Rightarrow> int \<Rightarrow> py_error + 'a" where
  "py_get xs i =
     (if in_range (length xs) i then Inr (xs ! wrap (length xs) i) else Inl IndexError)"

text \<open>A loop that builds a list and stops at the first raise.\<close>

fun collect :: "(py_error + 'a) list \<Rightarrow> py_error + 'a list" where
  "collect [] = Inr []"
| "collect (r # rs) =
     (case r of Inl e \<Rightarrow> Inl e
      | Inr v \<Rightarrow> (case collect rs of Inl e \<Rightarrow> Inl e | Inr vs \<Rightarrow> Inr (v # vs)))"

section \<open>Tensor values\<close>

text \<open>
  The entries of the tensors that \<^verbatim>\<open>build_af\<close> computes. A tensor operation never raises on
  a zero divisor: it yields an infinity or NaN and the computation goes on, so these
  values are part of what the method returns. Finite values are reals; rounding and
  overflow of finite values are not followed, and the sign of a zero is not either (a
  zero divisor is taken as \<^verbatim>\<open>+0.0\<close>).
\<close>

datatype flt = Num real | PInf | MInf | NaN

text \<open>IEEE addition: NaN is absorbing and \<open>inf - inf\<close> is NaN.\<close>

fun fadd :: "flt \<Rightarrow> flt \<Rightarrow> flt" where
  "fadd NaN b = NaN"
| "fadd a NaN = NaN"
| "fadd (Num x) (Num y) = Num (x + y)"
| "fadd PInf MInf = NaN"
| "fadd MInf PInf = NaN"
| "fadd PInf b = PInf"
| "fadd a PInf = PInf"
| "fadd MInf b = MInf"
| "fadd a MInf = MInf"

text \<open>IEEE multiplication: \<open>0 * inf\<close> is NaN, otherwise the signs multiply.\<close>

fun fmul :: "flt \<Rightarrow> flt \<Rightarrow> flt" where
  "fmul NaN b = NaN"
| "fmul a NaN = NaN"
| "fmul (Num x) (Num y) = Num (x * y)"
| "fmul (Num x) PInf = (if x = 0 then NaN else if 0 < x then PInf else MInf)"
| "fmul (Num x) MInf = (if x = 0 then NaN else if 0 < x then MInf else PInf)"
| "fmul PInf (Num y) = (if y = 0 then NaN else if 0 < y then PInf else MInf)"
| "fmul MInf (Num y) = (if y = 0 then NaN else if 0 < y then MInf else PInf)"
| "fmul PInf PInf = PInf"
| "fmul MInf MInf = PInf"
| "fmul PInf MInf = MInf"
| "fmul MInf PInf = MInf"

text \<open>
  IEEE division: \<open>0 / 0\<close> and \<open>inf / inf\<close> are NaN, \<open>x / 0\<close> is an infinity with the sign of
  \<open>x\<close>, and a finite value divided by an infinity is 0.
\<close>

fun fdiv :: "flt \<Rightarrow> flt \<Rightarrow> flt" where
  "fdiv NaN b = NaN"
| "fdiv a NaN = NaN"
| "fdiv (Num x) (Num y) =
     (if y \<noteq> 0 then Num (x / y) else if x = 0 then NaN else if 0 < x then PInf else MInf)"
| "fdiv (Num x) PInf = Num 0"
| "fdiv (Num x) MInf = Num 0"
| "fdiv PInf (Num y) = (if 0 \<le> y then PInf else MInf)"
| "fdiv MInf (Num y) = (if 0 \<le> y then MInf else PInf)"
| "fdiv PInf PInf = NaN"
| "fdiv PInf MInf = NaN"
| "fdiv MInf PInf = NaN"
| "fdiv MInf MInf = NaN"

text \<open>
  \<^verbatim>\<open>torch.min\<close>, of two tensors and along a dimension alike: NaN if one of the two values
  is NaN, else the smaller one.
\<close>

fun fmin :: "flt \<Rightarrow> flt \<Rightarrow> flt" where
  "fmin NaN b = NaN"
| "fmin a NaN = NaN"
| "fmin MInf b = MInf"
| "fmin a MInf = MInf"
| "fmin PInf b = b"
| "fmin a PInf = a"
| "fmin (Num x) (Num y) = Num (min x y)"

text \<open>The comparisons \<^verbatim>\<open><=\<close> and \<^verbatim>\<open><\<close> of floats: false as soon as one side is NaN.\<close>

fun fle :: "flt \<Rightarrow> flt \<Rightarrow> bool" where
  "fle NaN b = False"
| "fle a NaN = False"
| "fle MInf b = True"
| "fle a PInf = True"
| "fle (Num x) (Num y) = (x \<le> y)"
| "fle PInf b = False"
| "fle a MInf = False"

fun fless :: "flt \<Rightarrow> flt \<Rightarrow> bool" where
  "fless NaN b = False"
| "fless a NaN = False"
| "fless (Num x) (Num y) = (x < y)"
| "fless PInf b = False"
| "fless a MInf = False"
| "fless MInf b = True"
| "fless a PInf = True"

text \<open>\<^verbatim>\<open>torch.exp\<close> and \<^verbatim>\<open>torch.log\<close>.\<close>

fun fexp :: "flt \<Rightarrow> flt" where
  "fexp (Num u) = Num (exp u)"
| "fexp PInf = PInf"
| "fexp MInf = Num 0"
| "fexp NaN = NaN"

fun flog :: "flt \<Rightarrow> flt" where
  "flog (Num u) = (if 0 < u then Num (ln u) else if u = 0 then MInf else NaN)"
| "flog PInf = PInf"
| "flog MInf = NaN"
| "flog NaN = NaN"

text \<open>
  The least value of a sequence in the sense of \<^verbatim>\<open>torch.min\<close>, scanning from the left.
\<close>

definition fmin_list :: "flt list \<Rightarrow> flt" where
  "fmin_list vs = (case vs of [] \<Rightarrow> NaN | v # rest \<Rightarrow> foldl fmin v rest)"

section \<open>The trust-region state (TurboState, MF-TuRBO.update-state)\<close>

text \<open>
  \<^verbatim>\<open>best_value\<close> starts at \<^verbatim>\<open>-float("inf")\<close>; every later value is an observed, finite
  float.
\<close>

datatype best = NegInf | Fin real

record TurboState =
  dim_tr :: nat
  batch_size :: nat
  length_tr :: real
  length_min :: real
  length_max :: real
  failure_counter :: int
  failure_tolerance :: int
  success_counter :: int
  success_tolerance :: int
  best_value :: best
  restart_triggered :: bool

text \<open>
  \<^verbatim>\<open>TurboState(dim = d)\<close>: the dataclass defaults, then \<^verbatim>\<open>__post_init__\<close>, which sets
  \<^verbatim>\<open>failure_tolerance = math.ceil(max([4.0 / batch_size, float(dim) / batch_size]))\<close>.
  The controller only ever builds the state with the default \<^verbatim>\<open>batch_size = 1\<close>.
\<close>

definition post_init_failure_tolerance :: "nat \<Rightarrow> nat \<Rightarrow> int" where
  "post_init_failure_tolerance d bs = \<lceil>max (4 / real bs) (real d / real bs)\<rceil>"

definition new_TurboState :: "nat \<Rightarrow> TurboState" where
  "new_TurboState d =
     \<lparr> dim_tr = d, batch_size = 1, length_tr = 8 / 10, length_min = (1 / 2) ^ 7,
       length_max = 16 / 10, failure_counter = 0,
       failure_tolerance = post_init_failure_tolerance d 1,
       success_counter = 0, success_tolerance = 10, best_value = NegInf,
       restart_triggered = False \<rparr>"

text \<open>
  The success test \<^verbatim>\<open>max(Y_next) > state.best_value + 1e-3 * math.fabs(state.best_value)\<close>.
  With \<^verbatim>\<open>best_value = -inf\<close> the right-hand side is \<^verbatim>\<open>-inf + inf\<close>, which is NaN in IEEE
  arithmetic, and every comparison with NaN is false: no observation is a success
  against the initial best value.
\<close>

definition improves :: "best \<Rightarrow> real \<Rightarrow> bool" where
  "improves b y = (case b of NegInf \<Rightarrow> False | Fin v \<Rightarrow> y > v + (1 / 1000) * \<bar>v\<bar>)"

text \<open>\<^verbatim>\<open>max(state.best_value, y)\<close> for a finite \<open>y\<close>.\<close>

definition best_max :: "best \<Rightarrow> real \<Rightarrow> best" where
  "best_max b y = (case b of NegInf \<Rightarrow> Fin y | Fin v \<Rightarrow> Fin (max v y))"

text \<open>Python's \<^verbatim>\<open>max\<close> of a non-empty sequence, as a left-to-right scan.\<close>

fun list_max :: "real \<Rightarrow> real list \<Rightarrow> real" where
  "list_max m [] = m"
| "list_max m (y # ys) = list_max (if y > m then y else m) ys"

text \<open>
  \<^verbatim>\<open>update_state(state, Y_next)\<close>. \<open>Y_next\<close> is one row of the observations, a sequence of
  floats; \<^verbatim>\<open>max\<close> of an empty sequence raises.
\<close>

definition count_outcome :: "TurboState \<Rightarrow> real \<Rightarrow> TurboState" where
  "count_outcome s y =
     (if improves (best_value s) y
      then s\<lparr>success_counter := success_counter s + 1, failure_counter := 0\<rparr>
      else s\<lparr>success_counter := 0, failure_counter := failure_counter s + 1\<rparr>)"

text \<open>
  \<^verbatim>\<open>state.length /= 2.0\<close> divides a Python float, an IEEE double, by two. The quotient is
  exact as long as it is a normal number, that is at least \<^verbatim>\<open>2 ** -1022\<close> in magnitude.
  Below that the doubles are the multiples of \<^verbatim>\<open>2 ** -1074\<close> and the quotient is rounded to
  the nearest of them, a tie going to the even multiple: half of \<^verbatim>\<open>2 ** -1074\<close> is 0.0. No
  float division by 2.0 raises.
\<close>

definition round_half_even :: "real \<Rightarrow> int" where
  "round_half_even q =
     (if q - of_int \<lfloor>q\<rfloor> < 1 / 2 then \<lfloor>q\<rfloor>
      else if 1 / 2 < q - of_int \<lfloor>q\<rfloor> then \<lfloor>q\<rfloor> + 1
      else if even \<lfloor>q\<rfloor> then \<lfloor>q\<rfloor> else \<lfloor>q\<rfloor> + 1)"

definition halve :: "real \<Rightarrow> real" where
  "halve x =
     (if 1 / 2 ^ 1022 \<le> \<bar>x / 2\<bar> then x / 2
      else of_int (round_half_even (x / 2 * 2 ^ 1074)) / 2 ^ 1074)"

text \<open>
  The same rounding on the grid of the subnormal doubles: half of the multiple \<open>n\<close> of
  \<^verbatim>\<open>2 ** -1074\<close>, as a multiple.
\<close>

definition halve_multiple :: "int \<Rightarrow> int" where
  "halve_multiple n =
     (if even n then n div 2 else if even (n div 2) then n div 2 else n div 2 + 1)"

definition resize_region :: "TurboState \<Rightarrow> TurboState" where
  "resize_region s =
     (if success_counter s = success_tolerance s
      then s\<lparr>length_tr := min (2 * length_tr s) (length_max s), success_counter := 0\<rparr>
      else if failure_counter s = failure_tolerance s
      then s\<lparr>length_tr := halve (length_tr s), failure_counter := 0\<rparr>
      else s)"

definition flag_restart :: "TurboState \<Rightarrow> TurboState" where
  "flag_restart s = (if length_tr s < length_min s then s\<lparr>restart_triggered := True\<rparr> else s)"

definition update_state :: "TurboState \<Rightarrow> real list \<Rightarrow> py_error + TurboState" where
  "update_state s Y_next =
     (case Y_next of
        [] \<Rightarrow> Inl ValueError
      | y0 # ys \<Rightarrow>
          (let y = list_max y0 ys;
               s1 = count_outcome s y;
               s2 = resize_region s1;
               s3 = s2\<lparr>best_value := best_max (best_value s2) y\<rparr>
           in Inr (flag_restart s3)))"

text \<open>
  The state over a run: \<^verbatim>\<open>MF_TuRBO.optim_loop\<close> calls \<^verbatim>\<open>update_state\<close> once for every
  target-fidelity observation, in order.
\<close>

fun update_states :: "TurboState \<Rightarrow> real list list \<Rightarrow> py_error + TurboState" where
  "update_states s [] = Inr s"
| "update_states s (Y_next # rest) =
     (case update_state s Y_next of Inl e \<Rightarrow> Inl e | Inr s' \<Rightarrow> update_states s' rest)"

section \<open>The state of the UCB controllers (mfLiveBatch, mfUCB, mfUCBPlus)\<close>

type_synonym point = "real list"

text \<open>
  What the controller reads from the Gaussian-process engine during one call of
  \<^verbatim>\<open>optim_loop\<close>. The models are refitted only at the end of a call, so within a call
  these are fixed:
  \<^item> \<open>posterior i x\<close> is \<^verbatim>\<open>self.model[i].posterior(x)\<close>, mean and standard deviation;
  \<^item> \<open>bias_posterior i x\<close> is \<^verbatim>\<open>self.bias_model[i].posterior(x)\<close>;
  \<^item> \<open>gp_hyperparams\<close> is \<^verbatim>\<open>self.gp_hyperparams\<close>, a tuple (constant, lengthscale, noise,
    mean constant) per fidelity, written by \<^verbatim>\<open>set_hyperparams\<close> and by the
    hyper-parameter refresh at the end of \<^verbatim>\<open>optim_loop\<close> from what the engine returns;
  \<^item> \<open>lipschitz_constant\<close> is \<^verbatim>\<open>self.lipschitz_constant\<close>, written by \<^verbatim>\<open>update_model\<close> from
    the gradients of the posterior mean;
  \<^item> \<open>grad_norm_max i p\<close> is the largest gradient norm that
    \<^verbatim>\<open>calculate_local_lipschitz(p, i)\<close> finds on its grid around \<open>p\<close>.
\<close>

record surrogate =
  posterior :: "nat \<Rightarrow> point \<Rightarrow> real \<times> real"
  bias_posterior :: "nat \<Rightarrow> point \<Rightarrow> real \<times> real"
  gp_hyperparams :: "(real \<times> real list \<times> real \<times> real) list"
  lipschitz_constant :: "real list"
  grad_norm_max :: "nat \<Rightarrow> point \<Rightarrow> real"

text \<open>
  The three classes share the constructor of \<^verbatim>\<open>mfLiveBatch\<close> and differ in
  \<^verbatim>\<open>optim_loop\<close> and \<^verbatim>\<open>build_af\<close>.
\<close>

datatype variant = MfLiveBatch | MfUCB | MfUCBPlus

text \<open>
  The attributes of the controller object that the modelled methods read or write.
  \<open>expected_costs\<close> and \<open>fidelity_costs\<close> are \<^verbatim>\<open>self.env.func.expected_costs\<close> and
  \<^verbatim>\<open>self.env.func.fidelity_costs\<close>; costs and the cost budget are Python ints, as the
  default \<^verbatim>\<open>cost_budget = 4\<close> is. \<open>X_obs\<close>, \<open>Y_obs\<close> and \<open>T_obs\<close> are \<^verbatim>\<open>self.X\<close>, \<^verbatim>\<open>self.Y\<close> and
  \<^verbatim>\<open>self.T\<close> (single capital letters are left to variables). The list \<^verbatim>\<open>self.model\<close> has
  \<open>num_of_fidelities\<close> entries.
\<close>

record mf_state =
  dim_x :: nat
  cost_budget :: int
  batch_costs :: int
  budget :: int
  num_of_fidelities :: nat
  expected_costs :: "real list"
  fidelity_costs :: "int list"
  fidelity_thresholds :: "real list"
  increasing_thresholds :: bool
  update_max_bias :: bool
  cost_thresholds :: "real list"
  fidelity_count_list :: "int list"
  bias_list :: "real list"
  bias_constant :: real
  fixed_beta :: bool
  beta :: "flt list"
  penalization_gamma :: real
  max_value :: "real list"
  local_lipschitz :: bool
  soft_plus_transform :: bool
  grid_search :: bool
  X_obs :: "point list list"
  Y_obs :: "real list list"
  T_obs :: "int list list"
  bias_X :: "point list list"
  bias_Y :: "real list list"
  current_time :: int
  current_batch :: "point list"
  current_batch_fids :: "int list"
  lipschitz_batch_list :: "real list"
  query_being_evaluated :: bool

subsection \<open>The constructor\<close>

text \<open>What \<^verbatim>\<open>__init__\<close> reads from the environment.\<close>

record environment =
  env_dim :: nat
  env_num_of_fidelities :: nat
  env_expected_costs :: "real list"
  env_fidelity_costs :: "int list"
  env_require_transform :: bool
  env_grid_search :: bool
  env_current_time :: int

text \<open>
  Lines 68 and 69: \<^verbatim>\<open>[0] + [expected_costs[i] / expected_costs[i + 1] * cost_budget for i in
  range(num_of_fidelities - 1)]\<close>; \<^verbatim>\<open>mfUCB\<close> and \<^verbatim>\<open>mfUCBPlus\<close> then overwrite it with the
  same list without the factor \<^verbatim>\<open>cost_budget\<close>.
\<close>

definition cost_ratio :: "real list \<Rightarrow> nat \<Rightarrow> py_error + real" where
  "cost_ratio ec i =
     (if length ec \<le> Suc i then Inl IndexError
      else if ec ! Suc i = 0 then Inl ZeroDivisionError
      else Inr (ec ! i / ec ! Suc i))"

definition init_cost_thresholds :: "variant \<Rightarrow> real list \<Rightarrow> nat \<Rightarrow> int \<Rightarrow> py_error + real list" where
  "init_cost_thresholds v ec F cb =
     (case collect (map (cost_ratio ec) [0..<F - 1]) of
        Inl e \<Rightarrow> Inl e
      | Inr rs \<Rightarrow> Inr (0 # (if v = MfLiveBatch then map (\<lambda>r. r * real_of_int cb) rs else rs)))"

text \<open>
  \<^verbatim>\<open>__init__\<close> with a numeric \<^verbatim>\<open>initial_bias\<close>, followed by \<^verbatim>\<open>initialise_stuff\<close>. The
  argument \<open>beta_arg\<close> is \<open>None\<close> for the default \<^verbatim>\<open>beta = None\<close>. The initial default
  \<^verbatim>\<open>beta\<close> is \<^verbatim>\<open>float(0.2 * self.dim * np.log(2 * (self.env.current_time + 1)))\<close>;
  \<^verbatim>\<open>np.log\<close> warns and returns \<^verbatim>\<open>-inf\<close> or NaN, it does not raise, when its argument is not
  positive.
\<close>

definition init_controller ::
  "variant \<Rightarrow> environment \<Rightarrow> real option \<Rightarrow> real list option \<Rightarrow> int \<Rightarrow> int \<Rightarrow> real \<Rightarrow> bool \<Rightarrow> bool
     \<Rightarrow> py_error + mf_state" where
  "init_controller v env beta_arg thresholds_arg budget_arg cost_budget_arg initial_bias
       local_lipschitz_arg increasing_thresholds_arg =
     (let F = env_num_of_fidelities env in
      case init_cost_thresholds v (env_expected_costs env) F cost_budget_arg of
        Inl e \<Rightarrow> Inl e
      | Inr cts \<Rightarrow>
          Inr
            \<lparr> dim_x = env_dim env,
              cost_budget = cost_budget_arg,
              batch_costs = 0,
              budget = budget_arg,
              num_of_fidelities = F,
              expected_costs = env_expected_costs env,
              fidelity_costs = env_fidelity_costs env,
              fidelity_thresholds =
                (case thresholds_arg of None \<Rightarrow> replicate F (1 / 10) | Some ths \<Rightarrow> ths),
              increasing_thresholds = increasing_thresholds_arg,
              update_max_bias = True,
              cost_thresholds = cts,
              fidelity_count_list = replicate F 0,
              bias_list = map real [0..<F],
              bias_constant = initial_bias,
              fixed_beta = (beta_arg \<noteq> None),
              beta =
                (case beta_arg of
                   None \<Rightarrow> replicate F
                     (fmul (Num (2 / 10 * real (env_dim env)))
                           (flog (Num (2 * (real_of_int (env_current_time env) + 1)))))
                 | Some b \<Rightarrow> replicate F (Num b)),
              penalization_gamma = 1,
              max_value = replicate F 0,
              local_lipschitz = local_lipschitz_arg,
              soft_plus_transform = env_require_transform env,
              grid_search = env_grid_search env,
              X_obs = replicate F [],
              Y_obs = replicate F [],
              T_obs = replicate F [],
              bias_X = replicate F [],
              bias_Y = replicate F [],
              current_time = 0,
              current_batch = [],
              current_batch_fids = [],
              lipschitz_batch_list = [],
              query_being_evaluated = False \<rparr>)"

section \<open>The acquisition function (build-af)\<close>

text \<open>
  Mean and standard deviation of the model of fidelity \<open>fid\<close> at \<open>x\<close>: the posterior when
  \<^verbatim>\<open>self.X[fid] != []\<close>, the prior constants \<^verbatim>\<open>hypers[3]\<close> and \<^verbatim>\<open>hypers[0]\<close> of
  \<^verbatim>\<open>self.gp_hyperparams[fid]\<close> otherwise. \<open>model_readable\<close> says that none of the three
  list accesses raises.
\<close>

definition model_readable :: "surrogate \<Rightarrow> mf_state \<Rightarrow> int \<Rightarrow> bool" where
  "model_readable gp st fid =
     (in_range (length (X_obs st)) fid \<and>
      (if X_obs st ! wrap (length (X_obs st)) fid \<noteq> []
       then in_range (num_of_fidelities st) fid
       else in_range (length (gp_hyperparams gp)) fid))"

definition model_mean_std :: "surrogate \<Rightarrow> mf_state \<Rightarrow> int \<Rightarrow> point \<Rightarrow> real \<times> real" where
  "model_mean_std gp st fid x =
     (if X_obs st ! wrap (length (X_obs st)) fid \<noteq> []
      then posterior gp (wrap (num_of_fidelities st) fid) x
      else (case gp_hyperparams gp ! wrap (length (gp_hyperparams gp)) fid of
              (c, ls, noise, mean_constant) \<Rightarrow> (mean_constant, c)))"

text \<open>
  Mean and standard deviation of the bias of fidelity \<open>i\<close> (lines 441 to 444): the bias
  posterior when bias samples exist, else mean 0 and the tensor quotient
  \<^verbatim>\<open>torch.tensor(self.bias_list[i] * self.bias_constant) / self.beta[i]\<close>, which is an
  infinity or NaN when \<^verbatim>\<open>beta[i]\<close> is 0.
\<close>

definition bias_mean_std :: "surrogate \<Rightarrow> mf_state \<Rightarrow> nat \<Rightarrow> point \<Rightarrow> flt \<times> flt" where
  "bias_mean_std gp st i x =
     (if bias_X st ! i \<noteq> []
      then (case bias_posterior gp i x of (mean_bias, std_bias) \<Rightarrow> (Num mean_bias, Num std_bias))
      else (Num 0, fdiv (Num (bias_list st ! i * bias_constant st)) (beta st ! i)))"

text \<open>
  Lines 445 to 447: \<^verbatim>\<open>ucb_bias = mean_bias + self.beta[i] * std_bias\<close> and
  \<^verbatim>\<open>mean + self.beta[i] * std + ucb_bias\<close>, at one input.
\<close>

definition ucb_value :: "surrogate \<Rightarrow> mf_state \<Rightarrow> nat \<Rightarrow> point \<Rightarrow> flt" where
  "ucb_value gp st i x =
     (case model_mean_std gp st (int i) x of (mean, std) \<Rightarrow>
      case bias_mean_std gp st i x of (mean_bias, std_bias) \<Rightarrow>
        fadd (fadd (Num mean) (fmul (beta st ! i) (Num std)))
             (fadd mean_bias (fmul (beta st ! i) std_bias)))"

text \<open>
  One pass of the loop over fidelities (lines 431 to 447): row \<open>i\<close> of \<^verbatim>\<open>ucb\<close>, one value
  for every row of \<open>X\<close>. Only the list accesses can raise.
\<close>

definition ucb_row :: "surrogate \<Rightarrow> mf_state \<Rightarrow> point list \<Rightarrow> nat \<Rightarrow> py_error + flt list" where
  "ucb_row gp st Xs i =
     (if \<not> model_readable gp st (int i) then Inl IndexError
      else if length (bias_X st) \<le> i then Inl IndexError
      else if bias_X st ! i = [] \<and> (length (bias_list st) \<le> i \<or> length (beta st) \<le> i)
      then Inl IndexError
      else if length (beta st) \<le> i then Inl IndexError
      else Inr (map (ucb_value gp st i) Xs))"

text \<open>\<^verbatim>\<open>torch.log(1 + torch.exp(ucb))\<close>.\<close>

definition softplus :: "flt \<Rightarrow> flt" where
  "softplus u = flog (fadd (Num 1) (fexp u))"

text \<open>
  \<^verbatim>\<open>torch.norm(penalty_point - X, dim = 1)\<close> for one row \<open>x\<close> of \<open>X\<close>. The penalty point is a
  row too; torch broadcasts a row of one column against a longer one and raises on any
  other mismatch.
\<close>

definition row_diff :: "point \<Rightarrow> point \<Rightarrow> py_error + point" where
  "row_diff p x =
     (if length p = length x then Inr (map (\<lambda>(a, b). a - b) (zip p x))
      else if length p = 1 then Inr (map (\<lambda>b. hd p - b) x)
      else if length x = 1 then Inr (map (\<lambda>a. a - hd x) p)
      else Inl RuntimeError)"

definition norm2 :: "point \<Rightarrow> real" where
  "norm2 v = sqrt (sum_list (map (\<lambda>a. a * a) v))"

text \<open>
  The penaliser of the \<open>k\<close>-th penalty point \<open>pp\<close>, queued at fidelity \<open>fid\<close> (lines 458 to
  471), at one input: with \<^verbatim>\<open>r_j = (max_value[fid] - mean_pp) / L\<close> and
  \<^verbatim>\<open>denominator = r_j + gamma * std_pp / L\<close>, where \<open>L\<close> is \<^verbatim>\<open>lipschitz_batch_list[k]\<close>, it is
  \<^verbatim>\<open>torch.min(norm / denominator, torch.tensor(1))\<close>. All three quotients are tensor
  quotients.
\<close>

definition pen_denominator :: "surrogate \<Rightarrow> mf_state \<Rightarrow> nat \<Rightarrow> point \<Rightarrow> int \<Rightarrow> flt" where
  "pen_denominator gp st k pp fid =
     (case model_mean_std gp st fid pp of (mean_pp, std_pp) \<Rightarrow>
        fadd (fdiv (Num (max_value st ! wrap (length (max_value st)) fid - mean_pp))
                   (Num (lipschitz_batch_list st ! k)))
             (fdiv (Num (penalization_gamma st * std_pp)) (Num (lipschitz_batch_list st ! k))))"

definition penaliser :: "surrogate \<Rightarrow> mf_state \<Rightarrow> nat \<Rightarrow> point \<Rightarrow> int \<Rightarrow> point \<Rightarrow> flt" where
  "penaliser gp st k pp fid x =
     (case row_diff pp x of Inl e \<Rightarrow> Num 1
      | Inr d \<Rightarrow> fmin (fdiv (Num (norm2 d)) (pen_denominator gp st k pp fid)) (Num 1))"

text \<open>
  The penalisation loop (lines 452 to 473) from its \<open>k\<close>-th pass on: \<open>ps\<close> are the
  remaining pairs of \<^verbatim>\<open>zip(batch, batch_fids)\<close> and \<open>ucb\<close> is the table so far. It raises on an
  index out of range and on shapes that do not broadcast, and on nothing else.
\<close>

fun penalise ::
  "surrogate \<Rightarrow> mf_state \<Rightarrow> point list \<Rightarrow> nat \<Rightarrow> (point \<times> int) list \<Rightarrow> flt list list
     \<Rightarrow> py_error + flt list list" where
  "penalise gp st Xs k [] ucb = Inr ucb"
| "penalise gp st Xs k ((pp, fid) # ps) ucb =
     (if \<not> model_readable gp st fid then Inl IndexError
      else if \<not> in_range (length (max_value st)) fid \<or> length (lipschitz_batch_list st) \<le> k
      then Inl IndexError
      else if list_ex (\<lambda>x. row_diff pp x = Inl RuntimeError) Xs then Inl RuntimeError
      else if \<not> in_range (length ucb) fid then Inl IndexError
      else penalise gp st Xs (Suc k) ps
             (ucb[wrap (length ucb) fid :=
                    map (\<lambda>(u, x). fmul u (penaliser gp st k pp fid x))
                        (zip (ucb ! wrap (length ucb) fid) Xs)]))"

text \<open>
  \<^verbatim>\<open>torch.min(ucb, dim = 0)\<close>: the minimum of every column, scanning the rows in order.
  It raises on a table with no row.
\<close>

definition min_rows :: "flt list list \<Rightarrow> py_error + flt list" where
  "min_rows ucb =
     (case ucb of [] \<Rightarrow> Inl IndexError
      | r # rs \<Rightarrow> Inr (foldl (\<lambda>acc row. map (\<lambda>(a, b). fmin a b) (zip acc row)) r rs))"

text \<open>\<^verbatim>\<open>mfLiveBatch.build_af(X)\<close>, lines 420 to 476.\<close>

definition build_af :: "surrogate \<Rightarrow> mf_state \<Rightarrow> point list \<Rightarrow> py_error + flt list" where
  "build_af gp st Xs =
     (case collect (map (ucb_row gp st Xs) [0..<num_of_fidelities st]) of
        Inl e \<Rightarrow> Inl e
      | Inr ucb0 \<Rightarrow>
          (case penalise gp st Xs 0 (zip (current_batch st) (current_batch_fids st))
                  (if soft_plus_transform st then map (map softplus) ucb0 else ucb0) of
             Inl e \<Rightarrow> Inl e
           | Inr ucb \<Rightarrow> min_rows ucb))"

text \<open>
  \<^verbatim>\<open>mfUCB.build_af\<close> (lines 751 to 775): row \<open>i\<close> is
  \<^verbatim>\<open>mean + beta[i] * std + bias_list[i] * bias_constant\<close>; no division, no transform, no
  penalisation.
\<close>

definition ucb_row_mfUCB :: "surrogate \<Rightarrow> mf_state \<Rightarrow> point list \<Rightarrow> nat \<Rightarrow> py_error + flt list" where
  "ucb_row_mfUCB gp st Xs i =
     (if \<not> model_readable gp st (int i) then Inl IndexError
      else if length (beta st) \<le> i \<or> length (bias_list st) \<le> i then Inl IndexError
      else Inr (map (\<lambda>x. case model_mean_std gp st (int i) x of (mean, std) \<Rightarrow>
                            fadd (fadd (Num mean) (fmul (beta st ! i) (Num std)))
                                 (Num (bias_list st ! i * bias_constant st)))
                    Xs))"

definition build_af_mfUCB :: "surrogate \<Rightarrow> mf_state \<Rightarrow> point list \<Rightarrow> py_error + flt list" where
  "build_af_mfUCB gp st Xs =
     (case collect (map (ucb_row_mfUCB gp st Xs) [0..<num_of_fidelities st]) of
        Inl e \<Rightarrow> Inl e
      | Inr ucb \<Rightarrow> min_rows ucb)"

text \<open>
  \<^verbatim>\<open>mfUCBPlus.build_af\<close> (lines 1019 to 1049): the rows of \<^verbatim>\<open>mfLiveBatch.build_af\<close>, no
  transform, no penalisation.
\<close>

definition build_af_mfUCBPlus :: "surrogate \<Rightarrow> mf_state \<Rightarrow> point list \<Rightarrow> py_error + flt list" where
  "build_af_mfUCBPlus gp st Xs =
     (case collect (map (ucb_row gp st Xs) [0..<num_of_fidelities st]) of
        Inl e \<Rightarrow> Inl e
      | Inr ucb \<Rightarrow> min_rows ucb)"

text \<open>The method \<^verbatim>\<open>self.build_af\<close> of each class.\<close>

definition build_af_of :: "variant \<Rightarrow> surrogate \<Rightarrow> mf_state \<Rightarrow> point list \<Rightarrow> py_error + flt list" where
  "build_af_of v =
     (case v of MfLiveBatch \<Rightarrow> build_af | MfUCB \<Rightarrow> build_af_mfUCB | MfUCBPlus \<Rightarrow> build_af_mfUCBPlus)"

text \<open>
  What the specification says \<^verbatim>\<open>mfLiveBatch.build_af\<close> computes, stated without the
  loops: the UCB of fidelity \<open>i\<close> at \<open>x\<close> is the bias-adjusted bound (after the softplus
  transform when it is on) multiplied in turn by the penalisers of the penalty points
  queued at fidelity \<open>i\<close>, in the order of the batch, and the fused acquisition value is
  the least of them over the fidelities.
\<close>

definition spec_penalisers ::
  "surrogate \<Rightarrow> mf_state \<Rightarrow> nat \<Rightarrow> nat \<Rightarrow> (point \<times> int) list \<Rightarrow> point \<Rightarrow> flt list" where
  "spec_penalisers gp st i k ps x =
     map (\<lambda>(j, pp, fid). penaliser gp st j pp fid x)
         (filter (\<lambda>(j, pp, fid). wrap (num_of_fidelities st) fid = i)
                 (zip [k..<k + length ps] ps))"

definition spec_fidelity_ucb :: "surrogate \<Rightarrow> mf_state \<Rightarrow> nat \<Rightarrow> point \<Rightarrow> flt" where
  "spec_fidelity_ucb gp st i x =
     foldl fmul
       (if soft_plus_transform st then softplus (ucb_value gp st i x) else ucb_value gp st i x)
       (spec_penalisers gp st i 0 (zip (current_batch st) (current_batch_fids st)) x)"

definition spec_fused :: "surrogate \<Rightarrow> mf_state \<Rightarrow> point \<Rightarrow> flt" where
  "spec_fused gp st x =
     fmin_list (map (\<lambda>i. spec_fidelity_ucb gp st i x) [0..<num_of_fidelities st])"

text \<open>
  The shape in which the constructor leaves the controller and in which
  \<^verbatim>\<open>mfLiveBatch.optim_loop\<close> calls \<^verbatim>\<open>build_af\<close>: at least one fidelity, one entry per fidelity in
  every per-fidelity list, a Lipschitz constant for every query in flight, and every
  query in flight a point of \<^verbatim>\<open>self.dim\<close> coordinates at a fidelity from 0 to
  \<^verbatim>\<open>num_of_fidelities - 1\<close>.
\<close>

definition well_formed :: "surrogate \<Rightarrow> mf_state \<Rightarrow> bool" where
  "well_formed gp st =
     (0 < num_of_fidelities st
      \<and> length (X_obs st) = num_of_fidelities st
      \<and> length (gp_hyperparams gp) = num_of_fidelities st
      \<and> length (bias_X st) = num_of_fidelities st
      \<and> length (bias_list st) = num_of_fidelities st
      \<and> length (beta st) = num_of_fidelities st
      \<and> length (max_value st) = num_of_fidelities st
      \<and> length (current_batch st) \<le> length (lipschitz_batch_list st)
      \<and> list_all (\<lambda>(pp, fid). 0 \<le> fid \<and> fid < int (num_of_fidelities st)
                                \<and> length pp = dim_x st)
                  (zip (current_batch st) (current_batch_fids st)))"

section \<open>Choosing the next query (optimise-af)\<close>

text \<open>
  What one call of \<^verbatim>\<open>optimise_af\<close> draws from outside the controller:
  \<^item> \<open>uniform_point\<close> is \<^verbatim>\<open>np.random.uniform(size = self.dim)\<close>;
  \<^item> \<open>candidates\<close> is the search grid \<^verbatim>\<open>env.func.gen_search_grid(...)\<close> under grid search,
    and the Sobol draw on which the acquisition function is first evaluated otherwise;
  \<^item> \<open>optimised\<close> is the start on which the Adam iterations end with the best value.
\<close>

record af_oracle =
  uniform_point :: point
  candidates :: "point list"
  optimised :: point

text \<open>
  \<^verbatim>\<open>torch.argmax\<close>: the first index of the largest value, where NaN counts as larger than
  every other value (the first NaN wins if there is one). It raises on an empty tensor.
\<close>

definition greater_or_nan :: "flt \<Rightarrow> flt \<Rightarrow> bool" where
  "greater_or_nan a b = (if a = NaN then b \<noteq> NaN else fless b a)"

fun argmax_scan :: "nat \<Rightarrow> flt \<Rightarrow> nat \<Rightarrow> flt list \<Rightarrow> nat" where
  "argmax_scan best_idx best j [] = best_idx"
| "argmax_scan best_idx best j (a # as) =
     (if greater_or_nan a best then argmax_scan j a (Suc j) as
      else argmax_scan best_idx best (Suc j) as)"

definition argmax :: "flt list \<Rightarrow> py_error + nat" where
  "argmax af = (case af of [] \<Rightarrow> Inl RuntimeError | a # as \<Rightarrow> Inr (argmax_scan 0 a 1 as))"

text \<open>
  The test of the fidelity loop for fidelity \<open>i\<close> at the chosen input (lines 509 to 521
  and 588 to 604): \<^verbatim>\<open>threshold > self.fidelity_thresholds[i]\<close>, where the threshold is
  \<^verbatim>\<open>self.beta[i] * std\<close> when \<open>scaled\<close> and \<^verbatim>\<open>std\<close> otherwise.
\<close>

definition exceeds_threshold ::
  "bool \<Rightarrow> surrogate \<Rightarrow> mf_state \<Rightarrow> point \<Rightarrow> nat \<Rightarrow> py_error + bool" where
  "exceeds_threshold scaled gp st x i =
     (if model_readable gp st (int i) \<and> (if scaled then i < length (beta st) else True)
          \<and> i < length (fidelity_thresholds st)
      then Inr (fless (Num (fidelity_thresholds st ! i))
                      (if scaled then fmul (beta st ! i) (Num (snd (model_mean_std gp st (int i) x)))
                       else Num (snd (model_mean_std gp st (int i) x))))
      else Inl IndexError)"

text \<open>
  \<^verbatim>\<open>for i in reversed(range(self.num_of_fidelities))\<close>: from the cheapest fidelity towards
  the target, stopping at 0 or at the first fidelity whose test holds. With no fidelity
  at all the loop body never runs and \<^verbatim>\<open>new_M\<close> is read unassigned.
\<close>

fun walk_down :: "(nat \<Rightarrow> py_error + bool) \<Rightarrow> nat \<Rightarrow> py_error + nat" where
  "walk_down test 0 = Inr 0"
| "walk_down test (Suc i) =
     (case test (Suc i) of
        Inl e \<Rightarrow> Inl e
      | Inr b \<Rightarrow> if b then Inr (Suc i) else walk_down test i)"

definition choose_fidelity :: "(nat \<Rightarrow> py_error + bool) \<Rightarrow> nat \<Rightarrow> py_error + nat" where
  "choose_fidelity test F = (if F = 0 then Inl NameError else walk_down test (F - 1))"

text \<open>
  Lines 523 to 531 (and 606 to 614): count the chosen fidelity \<open>m\<close>, reset the counter
  of the next cheaper one, and double the threshold of \<open>m\<close> when its counter exceeds the
  cost threshold. The operator \<^verbatim>\<open>&\<close> evaluates both sides.
\<close>

definition count_fidelity :: "mf_state \<Rightarrow> nat \<Rightarrow> py_error + mf_state" where
  "count_fidelity st m =
     (if m < length (fidelity_count_list st)
          \<and> (if int m = int (num_of_fidelities st) - 1 then True
              else Suc m < length (fidelity_count_list st))
          \<and> m < length (cost_thresholds st)
      then
        (let counted = (fidelity_count_list st)[m := fidelity_count_list st ! m + 1];
             cl = (if int m = int (num_of_fidelities st) - 1 then counted
                   else counted[Suc m := 0])
         in if real_of_int (cl ! m) > cost_thresholds st ! m \<and> m \<noteq> 0
            then (if m < length (fidelity_thresholds st)
                  then Inr (st\<lparr>fidelity_thresholds :=
                                 (fidelity_thresholds st)[m := fidelity_thresholds st ! m * 2],
                               fidelity_count_list := cl[m := 0]\<rparr>)
                  else Inl IndexError)
            else Inr (st\<lparr>fidelity_count_list := cl\<rparr>))
      else Inl IndexError)"

text \<open>
  The part of \<^verbatim>\<open>optimise_af\<close> after the location \<open>new_X\<close> is known: fidelity loop, then
  counters.
\<close>

definition pick_fidelity ::
  "bool \<Rightarrow> surrogate \<Rightarrow> mf_state \<Rightarrow> point \<Rightarrow> py_error + (point \<times> int) \<times> mf_state" where
  "pick_fidelity scaled gp st new_X =
     (case choose_fidelity (exceeds_threshold scaled gp st new_X) (num_of_fidelities st) of
        Inl e \<Rightarrow> Inl e
      | Inr new_M \<Rightarrow>
          (case count_fidelity st new_M of
             Inl e \<Rightarrow> Inl e
           | Inr st' \<Rightarrow> Inr ((new_X, int new_M), st')))"

text \<open>
  \<^verbatim>\<open>optimise_af\<close> (lines 478 to 616; \<^verbatim>\<open>mfUCB\<close> repeats it at lines 777 to 916 and
  \<^verbatim>\<open>mfUCBPlus\<close> inherits it), with \<^verbatim>\<open>self.build_af\<close> that of the class \<open>v\<close>. It returns the
  query \<^verbatim>\<open>(new_X, new_M)\<close> and the state it leaves. Without grid search the acquisition
  function is evaluated on the Sobol draw, the ten best rows are improved by Adam and
  \<^verbatim>\<open>torch.argmax\<close> picks among them; that last step raises when there is no row at all.
\<close>

definition optimise_af ::
  "variant \<Rightarrow> surrogate \<Rightarrow> mf_state \<Rightarrow> af_oracle \<Rightarrow> py_error + (point \<times> int) \<times> mf_state" where
  "optimise_af v gp st orc =
     (if current_time st = 0
      then Inr ((uniform_point orc, int (num_of_fidelities st) - 1), st)
      else if grid_search st
      then (case build_af_of v gp st (candidates orc) of
              Inl e \<Rightarrow> Inl e
            | Inr af \<Rightarrow>
                (case argmax af of
                   Inl e \<Rightarrow> Inl e
                 | Inr best_idx \<Rightarrow> pick_fidelity True gp st (candidates orc ! best_idx)))
      else (case build_af_of v gp st (candidates orc) of
              Inl e \<Rightarrow> Inl e
            | Inr af \<Rightarrow>
                (case argmax af of
                   Inl e \<Rightarrow> Inl e
                 | Inr best_start \<Rightarrow>
                     pick_fidelity (increasing_thresholds st) gp st (optimised orc))))"

text \<open>
  \<^verbatim>\<open>MF_TuRBO.optimise_af\<close> (lines 2146 to 2159), a method of the multi-task
  controller. \<open>generated\<close> stands for what \<^verbatim>\<open>generate_batch\<close> and \<^verbatim>\<open>generate_fidelity\<close>
  return, a Thompson sample of the engine and the fidelity chosen for it.
\<close>

definition MF_TuRBO_optimise_af :: "int \<Rightarrow> nat \<Rightarrow> point \<Rightarrow> point \<times> int \<Rightarrow> point \<times> int" where
  "MF_TuRBO_optimise_af time F uniform generated =
     (if time = 0 then (uniform, int F - 1) else generated)"

section \<open>Filling the batch\<close>

text \<open>
  \<^verbatim>\<open>calculate_local_lipschitz(pen_point, fid)\<close> (lines 370 to 406): the global constant
  while the fidelity has no data, else the largest gradient norm around the point.
\<close>

definition calculate_local_lipschitz ::
  "surrogate \<Rightarrow> mf_state \<Rightarrow> point \<Rightarrow> int \<Rightarrow> py_error + real" where
  "calculate_local_lipschitz gp st pen_point fid =
     (if in_range (length (X_obs st)) fid
      then (if X_obs st ! wrap (length (X_obs st)) fid = []
            then py_get (lipschitz_constant gp) fid
            else if in_range (num_of_fidelities st) fid
            then Inr (grad_norm_max gp (wrap (num_of_fidelities st) fid) pen_point)
            else Inl IndexError)
      else Inl IndexError)"

text \<open>
  Lines 206 to 225: one Lipschitz constant for every query in flight, local or global
  as \<^verbatim>\<open>self.local_lipschitz\<close> says.
\<close>

definition initial_lipschitz ::
  "surrogate \<Rightarrow> mf_state \<Rightarrow> point list \<Rightarrow> int list \<Rightarrow> py_error + real list" where
  "initial_lipschitz gp st query_list fidelities_list =
     collect (map (\<lambda>(pp, fid). if local_lipschitz st then calculate_local_lipschitz gp st pp fid
                                 else py_get (lipschitz_constant gp) fid)
                  (zip query_list fidelities_list))"

text \<open>
  After a new query is added to the batch (lines 238 to 245): its Lipschitz constant
  is appended only if the loop is going to run again.
\<close>

definition append_lipschitz :: "surrogate \<Rightarrow> mf_state \<Rightarrow> point \<Rightarrow> int \<Rightarrow> py_error + mf_state" where
  "append_lipschitz gp st new_X new_M =
     (if batch_costs st < cost_budget st
      then (case calculate_local_lipschitz gp st new_X new_M of
              Inl e \<Rightarrow> Inl e
            | Inr l \<Rightarrow> Inr (st\<lparr>lipschitz_batch_list := lipschitz_batch_list st @ [l]\<rparr>))
      else Inr st)"

text \<open>
  The batch-filling loop of \<^verbatim>\<open>mfLiveBatch.optim_loop\<close> (lines 227 to 245):
  \<^verbatim>\<open>while self.batch_costs < self.cost_budget\<close>. Every pass consumes one \<open>af_oracle\<close>;
  the result is \<open>None\<close> when the loop wants another pass and the list of oracles is used
  up, so the list bounds the number of passes. The result holds the state after the loop
  and the queries \<^verbatim>\<open>(new_Xs, new_Ms)\<close> to dispatch. \<^verbatim>\<open>np.concatenate\<close> raises when the new
  row does not have \<^verbatim>\<open>self.dim\<close> columns.
\<close>

fun fill_batch ::
  "surrogate \<Rightarrow> mf_state \<Rightarrow> af_oracle list \<Rightarrow> (py_error + mf_state \<times> (point \<times> int) list) option" where
  "fill_batch gp st [] = (if batch_costs st < cost_budget st then None else Some (Inr (st, [])))"
| "fill_batch gp st (orc # rest) =
     (if batch_costs st < cost_budget st
      then (case optimise_af MfLiveBatch gp st orc of
              Inl e \<Rightarrow> Some (Inl e)
            | Inr ((new_X, new_M), st1) \<Rightarrow>
                if length new_X \<noteq> dim_x st1 then Some (Inl ValueError)
                else
                (case py_get (fidelity_costs st1) new_M of
                   Inl e \<Rightarrow> Some (Inl e)
                 | Inr c \<Rightarrow>
                     (case append_lipschitz gp
                             (st1\<lparr>current_batch := current_batch st1 @ [new_X],
                                  current_batch_fids := current_batch_fids st1 @ [new_M],
                                  batch_costs := batch_costs st1 + c\<rparr>) new_X new_M of
                        Inl e \<Rightarrow> Some (Inl e)
                      | Inr st2 \<Rightarrow>
                          (case fill_batch gp st2 rest of
                             None \<Rightarrow> None
                           | Some (Inl e) \<Rightarrow> Some (Inl e)
                           | Some (Inr (st', qs)) \<Rightarrow> Some (Inr (st', (new_X, new_M) # qs))))))
      else Some (Inr (st, [])))"

text \<open>
  The filler loop of \<^verbatim>\<open>mfUCB.optim_loop\<close> and \<^verbatim>\<open>mfUCBPlus.optim_loop\<close> (lines 658 to 665
  and 951 to 958), \<^verbatim>\<open>while self.batch_costs < self.cost_budget\<close>: every pass draws a
  uniform point and submits it with the \<^verbatim>\<open>new_M\<close> of the primary query, at cost
  \<^verbatim>\<open>fidelity_costs[int(new_M)]\<close>, here \<open>c\<close> (the primary query has read the same entry
  already). Every pass consumes one draw of \<open>draws\<close>, each a row of \<^verbatim>\<open>self.dim\<close> columns;
  the result is \<open>None\<close> when the loop wants another pass and the draws are used up. It
  returns the filler queries and the batch cost after the loop.
\<close>

fun fill_randomly ::
  "int \<Rightarrow> int \<Rightarrow> int \<Rightarrow> int \<Rightarrow> point list \<Rightarrow> ((point \<times> int) list \<times> int) option" where
  "fill_randomly cost_budget_v c new_M batch_costs_v [] =
     (if batch_costs_v < cost_budget_v then None else Some ([], batch_costs_v))"
| "fill_randomly cost_budget_v c new_M batch_costs_v (new_X # rest) =
     (if batch_costs_v < cost_budget_v
      then (case fill_randomly cost_budget_v c new_M (batch_costs_v + c) rest of
              None \<Rightarrow> None
            | Some (qs, bc) \<Rightarrow> Some ((new_X, new_M) # qs, bc))
      else Some ([], batch_costs_v))"

text \<open>
  Lines 648 to 665 (and 941 to 958): when no query is being evaluated, one primary query
  from \<^verbatim>\<open>optimise_af\<close>, then the filler loop; otherwise nothing is submitted.
\<close>

definition fill_sync ::
  "variant \<Rightarrow> surrogate \<Rightarrow> mf_state \<Rightarrow> af_oracle \<Rightarrow> point list
     \<Rightarrow> (py_error + mf_state \<times> (point \<times> int) list) option" where
  "fill_sync v gp st orc draws =
     (if query_being_evaluated st then Some (Inr (st, []))
      else
        (case optimise_af v gp st orc of
           Inl e \<Rightarrow> Some (Inl e)
         | Inr ((new_X, new_M), st1) \<Rightarrow>
             if length new_X \<noteq> dim_x st1 then Some (Inl ValueError)
             else
             (case py_get (fidelity_costs st1) new_M of
                Inl e \<Rightarrow> Some (Inl e)
              | Inr c \<Rightarrow>
                  (case fill_randomly (cost_budget st1) c new_M (batch_costs st1 + c) draws of
                     None \<Rightarrow> None
                   | Some (qs, bc) \<Rightarrow>
                       Some (Inr (st1\<lparr>batch_costs := bc, query_being_evaluated := True\<rparr>,
                                  (new_X, new_M) # qs))))))"

section \<open>Ingesting observations\<close>

text \<open>An observation returned by \<^verbatim>\<open>env.step\<close>: input, fidelity, value.\<close>

type_synonym observation = "point \<times> int \<times> real"

text \<open>
  Lines 257 to 260: append the input, the value and the time \<^verbatim>\<open>current_time + 1\<close> to the
  lists of fidelity \<open>fid\<close>.
\<close>

definition append_obs :: "mf_state \<Rightarrow> observation \<Rightarrow> py_error + mf_state" where
  "append_obs st ob =
     (case ob of (x, fid, y) \<Rightarrow>
        if in_range (length (X_obs st)) fid \<and> in_range (length (Y_obs st)) fid
             \<and> in_range (length (T_obs st)) fid
        then Inr (st\<lparr>
               X_obs := (X_obs st)[wrap (length (X_obs st)) fid :=
                                     X_obs st ! wrap (length (X_obs st)) fid @ [x]],
               Y_obs := (Y_obs st)[wrap (length (Y_obs st)) fid :=
                                     Y_obs st ! wrap (length (Y_obs st)) fid @ [y]],
               T_obs := (T_obs st)[wrap (length (T_obs st)) fid :=
                                     T_obs st ! wrap (length (T_obs st)) fid @ [current_time st + 1]]\<rparr>)
        else Inl IndexError)"

text \<open>
  Lines 263 to 270: the observed value minus the posterior mean of the model with index
  \<^verbatim>\<open>fid + 1\<close> at the same input; when that difference exceeds \<^verbatim>\<open>bias_constant\<close>, the
  constant becomes 1.2 times the difference. \<^verbatim>\<open>mfLiveBatch\<close> and \<^verbatim>\<open>mfUCB\<close> also ask for
  \<^verbatim>\<open>self.update_max_bias\<close> (\<open>gated\<close>), \<^verbatim>\<open>mfUCBPlus\<close> (line 981) does not.
\<close>

definition check_bias :: "bool \<Rightarrow> surrogate \<Rightarrow> mf_state \<Rightarrow> observation \<Rightarrow> py_error + mf_state" where
  "check_bias gated gp st ob =
     (case ob of (x, fid, y) \<Rightarrow>
        if in_range (num_of_fidelities st) (fid + 1)
        then (let f_low_fid_pred = fst (posterior gp (wrap (num_of_fidelities st) (fid + 1)) x);
                  diff = y - f_low_fid_pred
              in Inr (if diff > bias_constant st \<and> (if gated then update_max_bias st else True)
                      then st\<lparr>bias_constant := 12 / 10 * diff\<rparr> else st))
        else Inl IndexError)"

text \<open>The difference \<^verbatim>\<open>diff\<close> of line 268, for an observation as a whole.\<close>

definition observed_gap :: "surrogate \<Rightarrow> mf_state \<Rightarrow> observation \<Rightarrow> real" where
  "observed_gap gp st ob =
     (case ob of (x, fid, y) \<Rightarrow> y - fst (posterior gp (wrap (num_of_fidelities st) (fid + 1)) x))"

text \<open>
  Lines 273 to 282: after a target-fidelity observation, one bias sample for every
  fidelity from 1 on, the observed value minus that fidelity's posterior mean.
\<close>

fun add_bias_samples :: "surrogate \<Rightarrow> point \<Rightarrow> real \<Rightarrow> nat list \<Rightarrow> mf_state \<Rightarrow> py_error + mf_state" where
  "add_bias_samples gp x y [] st = Inr st"
| "add_bias_samples gp x y (lower_fid # fids) st =
     (if lower_fid < length (bias_X st) \<and> lower_fid < length (bias_Y st)
      then add_bias_samples gp x y fids
             (st\<lparr>bias_X := (bias_X st)[lower_fid := bias_X st ! lower_fid @ [x]],
                 bias_Y := (bias_Y st)[lower_fid := bias_Y st ! lower_fid
                                                     @ [y - fst (posterior gp lower_fid x)]]\<rparr>)
      else Inl IndexError)"

text \<open>Line 284: \<^verbatim>\<open>self.max_value[fid] = float(max(self.max_value[fid], float(self.new_obs[i])))\<close>.\<close>

definition update_max_value :: "mf_state \<Rightarrow> observation \<Rightarrow> py_error + mf_state" where
  "update_max_value st ob =
     (case ob of (x, fid, y) \<Rightarrow>
        if in_range (length (max_value st)) fid
        then Inr (st\<lparr>max_value := (max_value st)[wrap (length (max_value st)) fid :=
                        max (max_value st ! wrap (length (max_value st)) fid) y]\<rparr>)
        else Inl IndexError)"

text \<open>Line 286: \<^verbatim>\<open>self.batch_costs = self.batch_costs - self.env.func.fidelity_costs[fid]\<close>.\<close>

definition release_cost :: "mf_state \<Rightarrow> observation \<Rightarrow> py_error + mf_state" where
  "release_cost st ob =
     (case ob of (x, fid, y) \<Rightarrow>
        (case py_get (fidelity_costs st) fid of
           Inl e \<Rightarrow> Inl e
         | Inr c \<Rightarrow> Inr (st\<lparr>batch_costs := batch_costs st - c\<rparr>)))"

text \<open>
  The check and the samples together (lines 261 to 282, 680 to 689, 974 to 996), for an
  observation that is not at the cheapest fidelity; \<^verbatim>\<open>mfUCB\<close> collects no bias samples.
\<close>

definition bias_step :: "variant \<Rightarrow> surrogate \<Rightarrow> mf_state \<Rightarrow> observation \<Rightarrow> py_error + mf_state" where
  "bias_step v gp st ob =
     (case ob of (x, fid, y) \<Rightarrow>
        if fid = int (num_of_fidelities st) - 1 then Inr st
        else (case check_bias (v \<noteq> MfUCBPlus) gp st ob of
                Inl e \<Rightarrow> Inl e
              | Inr st1 \<Rightarrow>
                  if fid = 0 \<and> v \<noteq> MfUCB
                  then add_bias_samples gp x y [1..<num_of_fidelities st] st1
                  else Inr st1))"

text \<open>
  One pass of the loop over the observations, for each class: lines 255 to 286 of
  \<^verbatim>\<open>mfLiveBatch\<close>, 674 to 691 of \<^verbatim>\<open>mfUCB\<close> (which keeps no \<^verbatim>\<open>max_value\<close>) and 968 to 1002 of
  \<^verbatim>\<open>mfUCBPlus\<close> (which clears \<^verbatim>\<open>query_being_evaluated\<close> inside the loop).
\<close>

definition ingest_one :: "variant \<Rightarrow> surrogate \<Rightarrow> mf_state \<Rightarrow> observation \<Rightarrow> py_error + mf_state" where
  "ingest_one v gp st ob =
     (case append_obs st ob of
        Inl e \<Rightarrow> Inl e
      | Inr st1 \<Rightarrow>
          (case bias_step v gp st1 ob of
             Inl e \<Rightarrow> Inl e
           | Inr st2 \<Rightarrow>
               (case (if v = MfUCB then Inr st2 else update_max_value st2 ob) of
                  Inl e \<Rightarrow> Inl e
                | Inr st3 \<Rightarrow>
                    (case release_cost st3 ob of
                       Inl e \<Rightarrow> Inl e
                     | Inr st4 \<Rightarrow>
                         Inr (if v = MfUCBPlus then st4\<lparr>query_being_evaluated := False\<rparr>
                              else st4)))))"

fun ingest :: "variant \<Rightarrow> surrogate \<Rightarrow> mf_state \<Rightarrow> observation list \<Rightarrow> py_error + mf_state" where
  "ingest v gp st [] = Inr st"
| "ingest v gp st (ob # obs) =
     (case ingest_one v gp st ob of Inl e \<Rightarrow> Inl e | Inr st' \<Rightarrow> ingest v gp st' obs)"

text \<open>
  After the loop, \<^verbatim>\<open>update_model\<close> refits \<^verbatim>\<open>self.model[int(i)]\<close> for every observed
  fidelity, and \<^verbatim>\<open>update_model_bias\<close> (lines 408 to 418) refits the bias model of every
  fidelity that received a bias sample, from
  \<^verbatim>\<open>self.bias_list[i] * self.bias_constant / self.beta[i]\<close>, a division of Python floats,
  which raises on a zero divisor and on no other. The fits belong to the engine; their
  index and division errors are these.
\<close>

definition update_model_raises :: "mf_state \<Rightarrow> observation list \<Rightarrow> py_error option" where
  "update_model_raises st obs =
     (if list_all (\<lambda>(x, fid, y). in_range (num_of_fidelities st) fid) obs then None
      else Some IndexError)"

fun update_model_bias_raises :: "mf_state \<Rightarrow> nat list \<Rightarrow> py_error option" where
  "update_model_bias_raises st [] = None"
| "update_model_bias_raises st (i # fids) =
     (if i < length (bias_list st) \<and> i < length (beta st)
      then (if beta st ! i = Num 0 then Some ZeroDivisionError
            else update_model_bias_raises st fids)
      else Some IndexError)"

definition bias_update_set :: "variant \<Rightarrow> mf_state \<Rightarrow> observation list \<Rightarrow> nat list" where
  "bias_update_set v st obs =
     (if v \<noteq> MfUCB \<and> list_ex (\<lambda>(x, fid, y). fid = 0 \<and> fid \<noteq> int (num_of_fidelities st) - 1) obs
      then [1..<num_of_fidelities st] else [])"

text \<open>
  The hyper-parameter refresh that ends \<^verbatim>\<open>optim_loop\<close> (lines 294 to 341, 699 to 746,
  1010 to 1015) writes \<^verbatim>\<open>gp_hyperparams\<close> and \<^verbatim>\<open>last_n_obs\<close> only. With the default
  \<^verbatim>\<open>hp_update_frequency = None\<close> all it does is evaluate \<^verbatim>\<open>len(self.X[...])\<close>, which can
  raise.
\<close>

definition refresh_raises :: "variant \<Rightarrow> mf_state \<Rightarrow> py_error option" where
  "refresh_raises v st =
     (if v = MfUCBPlus \<or> num_of_fidelities st \<noteq> 1
      then (if in_range (length (X_obs st)) (int (num_of_fidelities st) - 1)
                 \<and> (if v = MfUCBPlus then True
                     else list_all (\<lambda>fid. fid < length (X_obs st)) [0..<num_of_fidelities st - 1])
            then None else Some IndexError)
      else (if 0 < length (X_obs st) then None else Some IndexError))"

text \<open>
  Everything after \<^verbatim>\<open>env.step\<close>: \<open>step_result\<close> is \<open>None\<close> when \<^verbatim>\<open>self.new_obs\<close> is \<^verbatim>\<open>None\<close>,
  else the observations returned. The last line advances \<^verbatim>\<open>current_time\<close>.
\<close>

definition after_step ::
  "variant \<Rightarrow> surrogate \<Rightarrow> mf_state \<Rightarrow> observation list option \<Rightarrow> py_error + mf_state" where
  "after_step v gp st step_result =
     (case (case step_result of
              None \<Rightarrow> Inr st
            | Some obs \<Rightarrow>
                (case ingest v gp st obs of
                   Inl e \<Rightarrow> Inl e
                 | Inr st1 \<Rightarrow>
                     (case update_model_raises st1 obs of
                        Some e \<Rightarrow> Inl e
                      | None \<Rightarrow>
                          (case update_model_bias_raises st1 (bias_update_set v st1 obs) of
                             Some e \<Rightarrow> Inl e
                           | None \<Rightarrow>
                               Inr (if v = MfUCB then st1\<lparr>query_being_evaluated := False\<rparr>
                                    else st1))))) of
        Inl e \<Rightarrow> Inl e
      | Inr st2 \<Rightarrow>
          (case refresh_raises v st2 of
             Some e \<Rightarrow> Inl e
           | None \<Rightarrow> Inr (st2\<lparr>current_time := current_time st2 + 1\<rparr>)))"

section \<open>One iteration (optim-loop)\<close>

text \<open>
  Everything that one call of \<^verbatim>\<open>optim_loop\<close> takes from outside the controller: the
  belief of the engine, the in-flight batch of the environment
  (\<^verbatim>\<open>env.query_list\<close>, \<^verbatim>\<open>env.fidelities_list\<close>), the oracles of the calls of
  \<^verbatim>\<open>optimise_af\<close>, the uniform draws of the filler loop, and what \<^verbatim>\<open>env.step\<close> returns.
\<close>

record round_input =
  belief :: surrogate
  query_list :: "point list"
  fidelities_list :: "int list"
  oracles :: "af_oracle list"
  draws :: "point list"
  step_result :: "observation list option"

text \<open>
  The \<^verbatim>\<open>beta\<close> update that opens \<^verbatim>\<open>optim_loop\<close>. \<^verbatim>\<open>mfLiveBatch\<close> (lines 197 to 199):
  \<^verbatim>\<open>0.2 * dim * np.log(2 * (current_time / expected_costs[0]) + 1)\<close>; \<^verbatim>\<open>mfUCB\<close> (lines 640
  to 642): \<^verbatim>\<open>0.2 * dim * np.log(2 * (current_time + 1) / expected_costs[0])\<close>;
  \<^verbatim>\<open>mfUCBPlus\<close> (lines 934 to 936): \<^verbatim>\<open>for fid in self.num_of_fidelities\<close>, a loop over an
  int. The quotient by \<^verbatim>\<open>expected_costs[0]\<close> is a division of Python numbers and raises on
  0; \<^verbatim>\<open>np.log\<close> of a number that is not positive is \<^verbatim>\<open>-inf\<close> or NaN.
\<close>

definition update_beta :: "variant \<Rightarrow> mf_state \<Rightarrow> py_error + mf_state" where
  "update_beta v st =
     (if fixed_beta st then Inr st
      else if v = MfUCBPlus then Inl TypeError
      else
        (case py_get (expected_costs st) 0 of
           Inl e \<Rightarrow> Inl e
         | Inr c0 \<Rightarrow>
             if c0 = 0 then Inl ZeroDivisionError
             else
               (let arg = (if v = MfLiveBatch then 2 * (real_of_int (current_time st) / c0) + 1
                           else 2 * (real_of_int (current_time st) + 1) / c0)
                in Inr (st\<lparr>beta := replicate (num_of_fidelities st)
                                       (fmul (Num (2 / 10 * real (dim_x st))) (flog (Num arg)))\<rparr>))))"

text \<open>
  \<^verbatim>\<open>mfLiveBatch.optim_loop\<close> (lines 191 to 343). The result is \<open>None\<close> only when the
  batch-filling loop used up its oracles; otherwise it is the raise, or the state after
  the call together with the batch handed to \<^verbatim>\<open>env.step\<close>.
\<close>

definition optim_loop_mfLiveBatch ::
  "mf_state \<Rightarrow> round_input \<Rightarrow> (py_error + mf_state \<times> (point \<times> int) list) option" where
  "optim_loop_mfLiveBatch st inp =
     (case update_beta MfLiveBatch st of
        Inl e \<Rightarrow> Some (Inl e)
      | Inr st1 \<Rightarrow>
          (case initial_lipschitz (belief inp)
                  (st1\<lparr>lipschitz_batch_list := [], current_batch := query_list inp,
                       current_batch_fids := fidelities_list inp\<rparr>)
                  (query_list inp) (fidelities_list inp) of
             Inl e \<Rightarrow> Some (Inl e)
           | Inr lips \<Rightarrow>
               (case fill_batch (belief inp)
                       (st1\<lparr>lipschitz_batch_list := lips, current_batch := query_list inp,
                            current_batch_fids := fidelities_list inp\<rparr>) (oracles inp) of
                  None \<Rightarrow> None
                | Some (Inl e) \<Rightarrow> Some (Inl e)
                | Some (Inr (st2, qs)) \<Rightarrow>
                    (case after_step MfLiveBatch (belief inp) st2 (step_result inp) of
                       Inl e \<Rightarrow> Some (Inl e)
                     | Inr st3 \<Rightarrow> Some (Inr (st3, qs))))))"

text \<open>
  \<^verbatim>\<open>mfUCB.optim_loop\<close> (lines 635 to 749) and \<^verbatim>\<open>mfUCBPlus.optim_loop\<close> (lines 929 to
  1017); \<open>v\<close> is \<open>MfUCB\<close> or \<open>MfUCBPlus\<close>. One oracle serves the one call of \<^verbatim>\<open>optimise_af\<close>.
\<close>

definition optim_loop_sync ::
  "variant \<Rightarrow> mf_state \<Rightarrow> round_input \<Rightarrow> (py_error + mf_state \<times> (point \<times> int) list) option" where
  "optim_loop_sync v st inp =
     (case update_beta v st of
        Inl e \<Rightarrow> Some (Inl e)
      | Inr st1 \<Rightarrow>
          (case oracles inp of
             [] \<Rightarrow> None
           | orc # rest \<Rightarrow>
               (case fill_sync v (belief inp) st1 orc (draws inp) of
                  None \<Rightarrow> None
                | Some (Inl e) \<Rightarrow> Some (Inl e)
                | Some (Inr (st2, qs)) \<Rightarrow>
                    (case after_step v (belief inp) st2 (step_result inp) of
                       Inl e \<Rightarrow> Some (Inl e)
                     | Inr st3 \<Rightarrow> Some (Inr (st3, qs))))))"

definition optim_loop ::
  "variant \<Rightarrow> mf_state \<Rightarrow> round_input \<Rightarrow> (py_error + mf_state \<times> (point \<times> int) list) option" where
  "optim_loop v st inp =
     (if v = MfLiveBatch then optim_loop_mfLiveBatch st inp else optim_loop_sync v st inp)"

text \<open>
  \<^verbatim>\<open>run_optim\<close> calls \<^verbatim>\<open>optim_loop\<close> while \<^verbatim>\<open>current_time <= budget - 1\<close>; a raise ends
  the run. Here the calls are made for a given list of inputs, one per call, and the
  result holds the last state and the batch that each call handed to \<^verbatim>\<open>env.step\<close>.
\<close>

fun optim_loops ::
  "variant \<Rightarrow> mf_state \<Rightarrow> round_input list
     \<Rightarrow> (py_error + mf_state \<times> (point \<times> int) list list) option" where
  "optim_loops v st [] = Some (Inr (st, []))"
| "optim_loops v st (inp # inps) =
     (case optim_loop v st inp of
        None \<Rightarrow> None
      | Some (Inl e) \<Rightarrow> Some (Inl e)
      | Some (Inr (st', qs)) \<Rightarrow>
          (case optim_loops v st' inps of
             None \<Rightarrow> None
           | Some (Inl e) \<Rightarrow> Some (Inl e)
           | Some (Inr (st'', batches)) \<Rightarrow> Some (Inr (st'', qs # batches))))"

text \<open>The two components of a result, when there is one.\<close>

definition state_after :: "(py_error + mf_state \<times> 'b) option \<Rightarrow> mf_state option" where
  "state_after r = (case r of Some (Inr (st, b)) \<Rightarrow> Some st | _ \<Rightarrow> None)"

definition dispatched :: "(py_error + mf_state \<times> 'b) option \<Rightarrow> 'b option" where
  "dispatched r = (case r of Some (Inr (st, b)) \<Rightarrow> Some b | _ \<Rightarrow> None)"

text \<open>The cost \<^verbatim>\<open>fidelity_costs[int(new_M)]\<close> of a query, and of a batch of queries.\<close>

definition query_cost :: "int list \<Rightarrow> point \<times> int \<Rightarrow> int" where
  "query_cost costs q = costs ! wrap (length costs) (snd q)"

definition batch_cost :: "int list \<Rightarrow> (point \<times> int) list \<Rightarrow> int" where
  "batch_cost costs qs = sum_list (map (query_cost costs) qs)"

text \<open>
  What \<^verbatim>\<open>max_value\<close> records: for every fidelity, the largest of 0 (its initial value) and
  the values stored for that fidelity in \<^verbatim>\<open>self.Y\<close>.
\<close>

definition max_of_zero_and :: "real list \<Rightarrow> real" where
  "max_of_zero_and ys = Max (insert 0 (set ys))"

definition max_value_recorded :: "mf_state \<Rightarrow> bool" where
  "max_value_recorded st = (max_value st = map max_of_zero_and (Y_obs st))"

section \<open>Example configurations\<close>

text \<open>
  Two fidelities in one dimension. Fidelity 0 has one observation and a posterior with
  mean \<open>x\<close> and standard deviation 1; fidelity 1 has no data and the prior mean 0 and
  standard deviation 2. One query, at the point 0 and fidelity 1, is in flight.
\<close>

definition gp2 :: surrogate where
  "gp2 = \<lparr> posterior = (\<lambda>i x. (sum_list x, 1)), bias_posterior = (\<lambda>i x. (0, 0)),
           gp_hyperparams = [(1, [15 / 100], 1 / 10000, 0), (2, [15 / 100], 1 / 10000, 0)],
           lipschitz_constant = [1, 1], grad_norm_max = (\<lambda>i p. 1) \<rparr>"

definition st2 :: mf_state where
  "st2 = \<lparr> dim_x = 1, cost_budget = 4, batch_costs = 1, budget = 10, num_of_fidelities = 2,
           expected_costs = [2, 1], fidelity_costs = [2, 1], fidelity_thresholds = [1 / 10, 1 / 10],
           increasing_thresholds = False, update_max_bias = True, cost_thresholds = [0, 8],
           fidelity_count_list = [0, 0], bias_list = [0, 1], bias_constant = 1 / 10,
           fixed_beta = True, beta = [Num 2, Num 2], penalization_gamma = 1, max_value = [3, 0],
           local_lipschitz = True, soft_plus_transform = False, grid_search = False,
           X_obs = [[[1]], []], Y_obs = [[3], []], T_obs = [[1], []],
           bias_X = [[], []], bias_Y = [[], []], current_time = 1,
           current_batch = [[0]], current_batch_fids = [1], lipschitz_batch_list = [1],
           query_being_evaluated = False \<rparr>"

text \<open>
  Three fidelities with costs 4, 2 and 1 in one dimension, cost budget 4. The controller
  is built with \<^verbatim>\<open>beta = 2\<close> and \<^verbatim>\<open>fidelity_thresholds = [0.1, 1, 0.1]\<close>. The engine's
  priors are the defaults of \<^verbatim>\<open>set_hyperparams\<close> (constant 0.6, mean 0); the posterior of
  a fidelity with data has mean 0 and standard deviation \<open>x\<close> at \<open>x\<close>.
\<close>

definition env3 :: environment where
  "env3 = \<lparr> env_dim = 1, env_num_of_fidelities = 3, env_expected_costs = [4, 2, 1],
            env_fidelity_costs = [4, 2, 1], env_require_transform = False,
            env_grid_search = False, env_current_time = 0 \<rparr>"

definition gp3 :: surrogate where
  "gp3 = \<lparr> posterior = (\<lambda>i x. (0, sum_list x)), bias_posterior = (\<lambda>i x. (0, 0)),
           gp_hyperparams = replicate 3 (6 / 10, [15 / 100], 1 / 10000, 0),
           lipschitz_constant = [1, 1, 1], grad_norm_max = (\<lambda>i p. 1) \<rparr>"

definition st3 :: mf_state where
  "st3 = \<lparr> dim_x = 1, cost_budget = 4, batch_costs = 0, budget = 10, num_of_fidelities = 3,
           expected_costs = [4, 2, 1], fidelity_costs = [4, 2, 1],
           fidelity_thresholds = [1 / 10, 1, 1 / 10],
           increasing_thresholds = False, update_max_bias = True, cost_thresholds = [0, 8, 8],
           fidelity_count_list = [0, 0, 0], bias_list = [0, 1, 2], bias_constant = 1 / 10,
           fixed_beta = True, beta = [Num 2, Num 2, Num 2], penalization_gamma = 1, max_value = [0, 0, 0],
           local_lipschitz = True, soft_plus_transform = False, grid_search = False,
           X_obs = [[], [], []], Y_obs = [[], [], []], T_obs = [[], [], []],
           bias_X = [[], [], []], bias_Y = [[], [], []], current_time = 0,
           current_batch = [], current_batch_fids = [], lipschitz_batch_list = [],
           query_being_evaluated = False \<rparr>"

text \<open>
  The first call of \<^verbatim>\<open>optim_loop\<close>: nothing is in flight, four uniform draws; in
  \<open>round0_all\<close> the environment returns all four observations, each with value 1, in
  \<open>round0_none\<close> it returns nothing yet.
\<close>

definition cold_oracle :: "point \<Rightarrow> af_oracle" where
  "cold_oracle u = \<lparr> uniform_point = u, candidates = [], optimised = [] \<rparr>"

definition round0_all :: round_input where
  "round0_all = \<lparr> belief = gp3, query_list = [], fidelities_list = [],
       oracles = [cold_oracle [1 / 4], cold_oracle [1 / 2], cold_oracle [3 / 4], cold_oracle [1]],
       draws = [],
       step_result = Some [([1 / 4], 2, 1), ([1 / 2], 2, 1), ([3 / 4], 2, 1), ([1], 2, 1)] \<rparr>"

definition round0_none :: round_input where
  "round0_none = round0_all \<lparr> step_result := None \<rparr>"

text \<open>
  A second call: the optimiser proposes the point 1 and then the point 0; the
  environment returns nothing.
\<close>

definition round1 :: round_input where
  "round1 = \<lparr> belief = gp3, query_list = [], fidelities_list = [],
       oracles = [\<lparr> uniform_point = [1 / 3], candidates = [[1]], optimised = [1] \<rparr>,
                  \<lparr> uniform_point = [2 / 3], candidates = [[0]], optimised = [0] \<rparr>],
       draws = [], step_result = None \<rparr>"

text \<open>The controller after the first call, in the two cases.\<close>

definition st3_after_all :: mf_state where
  "st3_after_all = st3 \<lparr> max_value := [0, 0, 1],
       X_obs := [[], [], [[1 / 4], [1 / 2], [3 / 4], [1]]], Y_obs := [[], [], [1, 1, 1, 1]],
       T_obs := [[], [], [1, 1, 1, 1]], current_time := 1,
       current_batch := [[1 / 4], [1 / 2], [3 / 4], [1]], current_batch_fids := [2, 2, 2, 2],
       lipschitz_batch_list := [1, 1, 1] \<rparr>"

definition st3_after_none :: mf_state where
  "st3_after_none = st3 \<lparr> batch_costs := 4, current_time := 1,
       current_batch := [[1 / 4], [1 / 2], [3 / 4], [1]], current_batch_fids := [2, 2, 2, 2],
       lipschitz_batch_list := [1, 1, 1] \<rparr>"

text \<open>
  The second call after all four observations came in: the controller when the
  batch-filling loop starts, after its first pass and when it ends.
\<close>

definition st3_loop_start :: mf_state where
  "st3_loop_start = st3_after_all \<lparr> lipschitz_batch_list := [], current_batch := [],
       current_batch_fids := [] \<rparr>"

definition st3_one_query :: mf_state where
  "st3_one_query = st3_loop_start \<lparr> fidelity_count_list := [0, 0, 1], current_batch := [[1]],
       current_batch_fids := [2], batch_costs := 1, lipschitz_batch_list := [1] \<rparr>"

definition st3_loop_end :: mf_state where
  "st3_loop_end = st3_one_query \<lparr> fidelity_count_list := [1, 0, 1], current_batch := [[1], [0]],
       current_batch_fids := [2, 0], batch_costs := 5 \<rparr>"

text \<open>
  The same environment under \<^verbatim>\<open>mfUCBPlus\<close>, built with \<^verbatim>\<open>beta = 2\<close>, the default
  thresholds and the initial bias \<open>b0\<close>: the controller after the constructor, and after
  a first call in which the primary query and its three fillers were all observed with
  value 1.
\<close>

definition plus3 :: "real \<Rightarrow> mf_state" where
  "plus3 b0 = st3 \<lparr> fidelity_thresholds := [1 / 10, 1 / 10, 1 / 10], cost_thresholds := [0, 2, 2],
       bias_constant := b0 \<rparr>"

definition plus3_after :: "real \<Rightarrow> mf_state" where
  "plus3_after b0 = plus3 b0 \<lparr> max_value := [0, 0, 1],
       X_obs := [[], [], [[1 / 4], [1 / 2], [3 / 4], [1]]], Y_obs := [[], [], [1, 1, 1, 1]],
       T_obs := [[], [], [1, 1, 1, 1]], current_time := 1 \<rparr>"

definition sync_round0 :: round_input where
  "sync_round0 = \<lparr> belief = gp3, query_list = [], fidelities_list = [],
       oracles = [cold_oracle [1 / 4]], draws = [[1 / 2], [3 / 4], [1]],
       step_result = Some [([1 / 4], 2, 1), ([1 / 2], 2, 1), ([3 / 4], 2, 1), ([1], 2, 1)] \<rparr>"

text \<open>
  A second call: the optimiser proposes the point 0, one uniform draw is available for
  the filler loop, and the environment returns \<open>res\<close>.
\<close>

definition sync_round1 :: "observation list option \<Rightarrow> round_input" where
  "sync_round1 res = \<lparr> belief = gp3, query_list = [], fidelities_list = [],
       oracles = [\<lparr> uniform_point = [1 / 3], candidates = [[0]], optimised = [0] \<rparr>],
       draws = [[1 / 5]], step_result = res \<rparr>"

text \<open>A first call of \<^verbatim>\<open>mfLiveBatch\<close> whose four observations all have the value -3.\<close>

definition round0_negative :: round_input where
  "round0_negative = round0_all \<lparr> step_result :=
       Some [([1 / 4], 2, - 3), ([1 / 2], 2, - 3), ([3 / 4], 2, - 3), ([1], 2, - 3)] \<rparr>"

text \<open>An engine whose posterior mean is 100 at the target fidelity and 0 elsewhere.\<close>

definition gp_target_high :: surrogate where
  "gp_target_high = gp3 \<lparr> posterior := (\<lambda>i x. (if i = 0 then 100 else 0, 1)) \<rparr>"

chapter \<open>Verified properties\<close>

section \<open>The trust-region state\<close>

lemma count_outcome_fields [simp]:
  "length_tr (count_outcome s y) = length_tr s"
  "length_max (count_outcome s y) = length_max s"
  "length_min (count_outcome s y) = length_min s"
  by (simp_all add: count_outcome_def)

text \<open>
  Halving a length that is not negative gives a length that is not negative and not
  larger; it is exact on normal quotients, and the smallest positive double is halved
  to 0.0.
\<close>

lemma round_half_even_bounds:
  assumes "0 \<le> q"
  shows "0 \<le> round_half_even q" "real_of_int (round_half_even q) \<le> 2 * q"
proof -
  have f: "0 \<le> \<lfloor>q\<rfloor>" using assms by simp
  then show "0 \<le> round_half_even q" by (simp add: round_half_even_def)
  have fl: "real_of_int \<lfloor>q\<rfloor> \<le> q" by simp
  show "real_of_int (round_half_even q) \<le> 2 * q"
  proof (cases "q - of_int \<lfloor>q\<rfloor> < 1 / 2")
    case True
    then have "round_half_even q = \<lfloor>q\<rfloor>" by (simp add: round_half_even_def)
    with fl assms show ?thesis by linarith
  next
    case False
    then have h: "of_int \<lfloor>q\<rfloor> + 1 / 2 \<le> q" by simp
    have "real_of_int (round_half_even q) \<le> of_int \<lfloor>q\<rfloor> + 1"
      by (simp add: round_half_even_def)
    also have "\<dots> \<le> 2 * q"
    proof (cases "\<lfloor>q\<rfloor> = 0")
      case True
      with h show ?thesis by simp
    next
      case False
      with f have "1 \<le> \<lfloor>q\<rfloor>" by linarith
      then have "1 \<le> real_of_int \<lfloor>q\<rfloor>" by linarith
      with fl show ?thesis by linarith
    qed
    finally show ?thesis .
  qed
qed

lemma halve_bounds:
  assumes "0 \<le> x"
  shows "0 \<le> halve x" "halve x \<le> x"
proof -
  have q: "0 \<le> x / 2 * 2 ^ 1074" using assms by simp
  note b = round_half_even_bounds[OF q]
  show "0 \<le> halve x" using assms b(1) by (simp add: halve_def)
  have "real_of_int (round_half_even (x / 2 * 2 ^ 1074)) / 2 ^ 1074 \<le> (2 * (x / 2 * 2 ^ 1074)) / 2 ^ 1074"
    using b(2) by (intro divide_right_mono) simp_all
  also have "\<dots> = x" by simp
  finally show "halve x \<le> x" using assms by (simp add: halve_def)
qed

lemma halve_normal: "1 / 2 ^ 1022 \<le> \<bar>x / 2\<bar> \<Longrightarrow> halve x = x / 2"
  by (simp add: halve_def)

lemma halve_smallest: "halve (1 / 2 ^ 1074) = 0"
proof -
  have "\<not> (1 / 2 ^ 1022 \<le> \<bar>1 / 2 ^ 1074 / 2 :: real\<bar>)" by simp
  moreover have "(1 / 2 ^ 1074 / 2 * 2 ^ 1074 :: real) = 1 / 2" by simp
  moreover have "round_half_even (1 / 2) = 0" by (simp add: round_half_even_def)
  ultimately show ?thesis by (simp add: halve_def)
qed

text \<open>
  From 0.8 the first 1021 halvings are exact, the next one lands on the multiple
  3602879701896397 of \<^verbatim>\<open>2 ** -1074\<close>, and 53 more reach 0.0: 1075 halvings in all.
\<close>

lemma round_half_even_half: "round_half_even (of_int n / 2) = halve_multiple n"
proof (cases "even n")
  case True
  then obtain m where n: "n = 2 * m" by (auto elim: evenE)
  then show ?thesis by (simp add: round_half_even_def halve_multiple_def)
next
  case False
  then obtain m where n: "n = 2 * m + 1" by (auto elim: oddE)
  have q: "real_of_int n / 2 = of_int m + 1 / 2" by (simp add: n field_simps)
  have f: "\<lfloor>real_of_int m + 1 / 2\<rfloor> = m" by linarith
  have d: "n div 2 = m" by (simp add: n)
  show ?thesis unfolding q
    using False by (simp add: round_half_even_def halve_multiple_def f d)
qed

lemma halve_subnormal:
  assumes "0 \<le> n" "n < 2 ^ 53"
  shows "halve (of_int n / 2 ^ 1074) = of_int (halve_multiple n) / 2 ^ 1074"
proof -
  have "real_of_int n < 2 ^ 53" using assms(2) by (metis of_int_less_numeral_power_cancel_iff)
  then have "real_of_int n / 2 ^ 1074 / 2 < 2 ^ 53 / 2 ^ 1074 / 2"
    by (simp add: divide_strict_right_mono)
  also have "(2 ^ 53 / 2 ^ 1074 / 2 :: real) = 1 / 2 ^ 1022" by simp
  finally have 1: "\<not> 1 / 2 ^ 1022 \<le> \<bar>real_of_int n / 2 ^ 1074 / 2\<bar>"
    using assms(1) by simp
  have 2: "real_of_int n / 2 ^ 1074 / 2 * 2 ^ 1074 = of_int n / 2" by simp
  show ?thesis
    unfolding halve_def using 1 by (simp only: if_False 2 round_half_even_half)
qed

lemma halve_multiple_bounds: "0 \<le> n \<Longrightarrow> 0 \<le> halve_multiple n \<and> halve_multiple n \<le> n"
proof -
  assume n: "0 \<le> n"
  then have "0 \<le> n div 2" "n div 2 \<le> n" by simp_all
  moreover have "n div 2 + 1 \<le> n" if "odd n" using that n by presburger
  ultimately show ?thesis by (auto simp: halve_multiple_def)
qed

lemma halve_subnormal_funpow:
  assumes "0 \<le> n" "n < 2 ^ 53"
  shows "0 \<le> (halve_multiple ^^ k) n \<and> (halve_multiple ^^ k) n < 2 ^ 53
       \<and> (halve ^^ k) (of_int n / 2 ^ 1074) = of_int ((halve_multiple ^^ k) n) / 2 ^ 1074"
proof (induction k)
  case 0
  show ?case using assms by (simp only: funpow_0)
next
  case (Suc k)
  let ?m = "(halve_multiple ^^ k) n"
  from Suc have m: "0 \<le> ?m" "?m < 2 ^ 53"
    and e: "(halve ^^ k) (of_int n / 2 ^ 1074) = of_int ?m / 2 ^ 1074" by blast+
  have s: "(halve_multiple ^^ Suc k) n = halve_multiple ?m" by (simp only: funpow.simps o_apply)
  from halve_multiple_bounds[OF m(1)] m(2)
  have b: "0 \<le> halve_multiple ?m" "halve_multiple ?m < 2 ^ 53" by linarith+
  have "(halve ^^ Suc k) (of_int n / 2 ^ 1074) = halve ((halve ^^ k) (of_int n / 2 ^ 1074))"
    by (simp only: funpow.simps o_apply)
  also have "\<dots> = halve (of_int ?m / 2 ^ 1074)" by (simp only: e)
  also have "\<dots> = of_int (halve_multiple ?m) / 2 ^ 1074" by (rule halve_subnormal[OF m])
  finally show ?case using b by (simp only: s)
qed

lemma halve_normal_funpow: "k \<le> 1021 \<Longrightarrow> (halve ^^ k) (4 / 5) = 4 / 5 / 2 ^ k"
proof (induction k)
  case 0
  show ?case by simp
next
  case (Suc k)
  then have ih: "(halve ^^ k) (4 / 5) = 4 / 5 / 2 ^ k" by simp
  have "(2::real) ^ Suc k \<le> 2 ^ 1021" using Suc.prems by (intro power_increasing) simp_all
  then have "(2::real) ^ Suc k \<le> 4 / 5 * 2 ^ 1022" by simp
  then have "1 / 2 ^ 1022 \<le> (4 / 5 / 2 ^ k / 2 :: real)"
    by (simp add: field_simps)
  then have "1 / 2 ^ 1022 \<le> \<bar>4 / 5 / 2 ^ k / 2 :: real\<bar>" by simp
  from halve_normal[OF this] ih show ?case by simp
qed

lemma halve_multiple_53: "(halve_multiple ^^ 53) 3602879701896397 = 0"
  by (simp add: eval_nat_numeral halve_multiple_def)

lemma halve_1022: "(halve ^^ 1022) (4 / 5) = 3602879701896397 / 2 ^ 1074"
proof -
  have "(halve ^^ 1022) (4 / 5) = halve ((halve ^^ 1021) (4 / 5))"
    by (simp add: eval_nat_numeral)
  also have "\<dots> = halve (4 / 5 / 2 ^ 1021)" by (simp add: halve_normal_funpow)
  also have "\<dots> = 3602879701896397 / 2 ^ 1074"
  proof -
    have 1: "\<not> 1 / 2 ^ 1022 \<le> \<bar>4 / 5 / 2 ^ 1021 / 2 :: real\<bar>" by simp
    have 2: "(4 / 5 / 2 ^ 1021 / 2 * 2 ^ 1074 :: real) = 18014398509481984 / 5" by simp
    have 3: "round_half_even (18014398509481984 / 5) = 3602879701896397"
      by (simp add: round_half_even_def)
    have "halve (4 / 5 / 2 ^ 1021)
        = of_int (round_half_even (4 / 5 / 2 ^ 1021 / 2 * 2 ^ 1074)) / 2 ^ 1074"
      unfolding halve_def using 1 by (simp only: if_False)
    also have "\<dots> = of_int 3602879701896397 / 2 ^ 1074" by (simp only: 2 3)
    finally show ?thesis by simp
  qed
  finally show ?thesis .
qed

lemma halve_1075: "(halve ^^ 1075) (4 / 5) = 0"
proof -
  have n: "(1075::nat) = 53 + 1022" by simp
  have "(halve ^^ 1075) (4 / 5) = (halve ^^ 53) ((halve ^^ 1022) (4 / 5))"
    by (simp only: n funpow_add o_apply)
  also have "\<dots> = (halve ^^ 53) (of_int 3602879701896397 / 2 ^ 1074)"
    by (simp add: halve_1022)
  also have "\<dots> = of_int ((halve_multiple ^^ 53) 3602879701896397) / 2 ^ 1074"
    using halve_subnormal_funpow[of 3602879701896397 53] by simp
  also have "\<dots> = 0" by (simp only: halve_multiple_53 of_int_0 div_0)
  finally show ?thesis .
qed

lemma halve_code [code]:
  "halve x =
     (if 1 / 2 ^ 20 \<le> \<bar>x / 2\<bar> then x / 2
      else if 1 / 2 ^ 1022 \<le> \<bar>x / 2\<bar> then x / 2
      else of_int (round_half_even (x / 2 * 2 ^ 1074)) / 2 ^ 1074)"
  by (simp add: halve_def)

lemma resize_region_bounds:
  assumes "0 \<le> length_tr s" "length_tr s \<le> length_max s"
  shows "0 \<le> length_tr (resize_region s)" "length_tr (resize_region s) \<le> length_max s"
  using assms halve_bounds[of "length_tr s"] by (simp_all add: resize_region_def)

lemma resize_region_fields [simp]:
  "length_max (resize_region s) = length_max s"
  "length_min (resize_region s) = length_min s"
  by (simp_all add: resize_region_def)

lemma flag_restart_fields [simp]:
  "length_tr (flag_restart s) = length_tr s"
  "length_max (flag_restart s) = length_max s"
  "length_min (flag_restart s) = length_min s"
  by (simp_all add: flag_restart_def)

lemma flag_restart_sets:
  "length_tr (flag_restart s) < length_min (flag_restart s) \<Longrightarrow> restart_triggered (flag_restart s)"
  by (simp add: flag_restart_def split: if_splits)

lemma update_state_Inr: "Y \<noteq> [] \<Longrightarrow> \<exists>s'. update_state s Y = Inr s'"
  by (cases Y) (simp_all add: update_state_def Let_def)

text \<open>
  One call: the length stays non-negative and at most \<open>length_max\<close>, the two bounds are
  not written, and a length below \<open>length_min\<close> is flagged.
\<close>

lemma update_state_step:
  assumes "update_state s Y = Inr s'" "0 \<le> length_tr s" "length_tr s \<le> length_max s"
  shows "0 \<le> length_tr s' \<and> length_tr s' \<le> length_max s' \<and> length_max s' = length_max s
         \<and> length_min s' = length_min s \<and> (length_tr s' < length_min s' \<longrightarrow> restart_triggered s')"
proof (cases Y)
  case Nil
  with assms(1) show ?thesis by (simp add: update_state_def)
next
  case (Cons y0 ys)
  define t where "t = (resize_region (count_outcome s (list_max y0 ys)))
     \<lparr>best_value := best_max (best_value (resize_region (count_outcome s (list_max y0 ys)))) (list_max y0 ys)\<rparr>"
  have s': "s' = flag_restart t"
    using assms(1) Cons by (simp add: update_state_def Let_def t_def)
  have "0 \<le> length_tr t" "length_tr t \<le> length_max s"
    using resize_region_bounds[of "count_outcome s (list_max y0 ys)"] assms(2,3)
    by (simp_all add: t_def)
  moreover have "length_max t = length_max s" "length_min t = length_min s"
    by (simp_all add: t_def)
  ultimately show ?thesis
    using flag_restart_sets[of t] by (simp add: s')
qed

text \<open>
  Twenty-eight observations that never improve, from a fresh state of dimension 1
  (\<open>failure_tolerance = 4\<close>): seven halvings take the length from 0.8 to 0.00625.
\<close>

lemma turbo_28_failures:
  "update_states (new_TurboState 1) (replicate 28 [0]) =
     Inr \<lparr>dim_tr = 1, batch_size = 1, length_tr = 1 / 160, length_min = 1 / 128,
          length_max = 8 / 5, failure_counter = 0, failure_tolerance = 4,
          success_counter = 0, success_tolerance = 10, best_value = Fin 0,
          restart_triggered = True\<rparr>"
  by code_simp

text \<open>
  C7, as stated, fails: \<^verbatim>\<open>update_state\<close> clamps the length from above only. After the 28
  failures above the length is 1/160, below \<open>length_min = 1/128\<close>.
\<close>

theorem C7_length_below_min_counterexample:
  "update_states (new_TurboState 1) (replicate 28 [0]) =
     Inr \<lparr>dim_tr = 1, batch_size = 1, length_tr = 1 / 160, length_min = 1 / 128,
          length_max = 8 / 5, failure_counter = 0, failure_tolerance = 4,
          success_counter = 0, success_tolerance = 10, best_value = Fin 0,
          restart_triggered = True\<rparr>
   \<and> \<not> (length_min (new_TurboState 1) \<le> (1 / 160 :: real))"
  using turbo_28_failures by (simp add: new_TurboState_def power_divide)

text \<open>
  The length does not stay positive either. Every four observations that do not improve
  halve it, and 4300 of them, from a fresh state of dimension 1, take it to 0.0.
\<close>

lemma update_states_append:
  "update_states s (xs @ ys) =
     (case update_states s xs of Inl e \<Rightarrow> Inl e | Inr s' \<Rightarrow> update_states s' ys)"
  by (induction xs arbitrary: s) (auto split: sum.splits)

lemma one_failure:
  assumes "best_value s = NegInf \<or> best_value s = Fin 0"
    "failure_counter s + 1 \<noteq> failure_tolerance s" "0 \<noteq> success_tolerance s"
  shows "\<exists>s'. update_state s [0] = Inr s' \<and> length_tr s' = length_tr s
            \<and> failure_counter s' = failure_counter s + 1
            \<and> failure_tolerance s' = failure_tolerance s
            \<and> success_tolerance s' = success_tolerance s \<and> best_value s' = Fin 0"
  using assms
  by (auto simp: update_state_def count_outcome_def improves_def resize_region_def best_max_def
        flag_restart_def Let_def)

lemma last_failure:
  assumes "best_value s = NegInf \<or> best_value s = Fin 0"
    "failure_counter s + 1 = failure_tolerance s" "0 \<noteq> success_tolerance s"
  shows "\<exists>s'. update_state s [0] = Inr s' \<and> length_tr s' = halve (length_tr s)
            \<and> failure_counter s' = 0
            \<and> failure_tolerance s' = failure_tolerance s
            \<and> success_tolerance s' = success_tolerance s \<and> best_value s' = Fin 0"
  using assms
  by (auto simp: update_state_def count_outcome_def improves_def resize_region_def best_max_def
        flag_restart_def Let_def)

lemma four_failures:
  assumes "best_value s = NegInf \<or> best_value s = Fin 0"
    "failure_counter s = 0" "failure_tolerance s = 4" "success_tolerance s = 10"
  shows "\<exists>s'. update_states s (replicate 4 [0]) = Inr s' \<and> length_tr s' = halve (length_tr s)
            \<and> failure_counter s' = 0 \<and> failure_tolerance s' = 4
            \<and> success_tolerance s' = 10 \<and> best_value s' = Fin 0"
proof -
  from one_failure[of s] assms obtain s1 where
    1: "update_state s [0] = Inr s1" "length_tr s1 = length_tr s" "failure_counter s1 = 1"
       "failure_tolerance s1 = 4" "success_tolerance s1 = 10" "best_value s1 = Fin 0"
    by auto
  from one_failure[of s1] 1 obtain s2 where
    2: "update_state s1 [0] = Inr s2" "length_tr s2 = length_tr s" "failure_counter s2 = 2"
       "failure_tolerance s2 = 4" "success_tolerance s2 = 10" "best_value s2 = Fin 0"
    by auto
  from one_failure[of s2] 2 obtain s3 where
    3: "update_state s2 [0] = Inr s3" "length_tr s3 = length_tr s" "failure_counter s3 = 3"
       "failure_tolerance s3 = 4" "success_tolerance s3 = 10" "best_value s3 = Fin 0"
    by auto
  from last_failure[of s3] 3 obtain s4 where
    4: "update_state s3 [0] = Inr s4" "length_tr s4 = halve (length_tr s)" "failure_counter s4 = 0"
       "failure_tolerance s4 = 4" "success_tolerance s4 = 10" "best_value s4 = Fin 0"
    by auto
  have "update_states s (replicate 4 [0]) = Inr s4"
    using 1(1) 2(1) 3(1) 4(1) by (simp add: eval_nat_numeral)
  with 4 show ?thesis by simp
qed

lemma blocks_of_failures:
  "\<exists>s'. update_states (new_TurboState 1) (replicate (4 * n) [0]) = Inr s'
        \<and> length_tr s' = (halve ^^ n) (4 / 5)
        \<and> (best_value s' = NegInf \<or> best_value s' = Fin 0)
        \<and> failure_counter s' = 0 \<and> failure_tolerance s' = 4 \<and> success_tolerance s' = 10"
proof (induction n)
  case 0
  show ?case by (simp add: new_TurboState_def post_init_failure_tolerance_def)
next
  case (Suc n)
  then obtain s1 where
    1: "update_states (new_TurboState 1) (replicate (4 * n) [0]) = Inr s1"
       "length_tr s1 = (halve ^^ n) (4 / 5)"
       "best_value s1 = NegInf \<or> best_value s1 = Fin 0"
       "failure_counter s1 = 0" "failure_tolerance s1 = 4" "success_tolerance s1 = 10"
    by blast
  from four_failures[OF 1(3,4,5,6)] obtain s2 where
    2: "update_states s1 (replicate 4 [0]) = Inr s2" "length_tr s2 = halve (length_tr s1)"
       "failure_counter s2 = 0" "failure_tolerance s2 = 4" "success_tolerance s2 = 10"
       "best_value s2 = Fin 0"
    by blast
  have r: "replicate (4 * Suc n) [0::real] = replicate (4 * n) [0] @ replicate 4 [0]"
    by (simp only: replicate_add[symmetric]) simp
  have "update_states (new_TurboState 1) (replicate (4 * Suc n) [0]) = Inr s2"
    unfolding r update_states_append by (simp only: 1(1) sum.case 2(1))
  moreover have "length_tr s2 = (halve ^^ Suc n) (4 / 5)"
    by (simp only: 2(2) 1(2) funpow.simps o_apply)
  ultimately show ?case using 2 by blast
qed

lemma turbo_4300_failures:
  "\<exists>s'. update_states (new_TurboState 1) (replicate 4300 [0]) = Inr s' \<and> length_tr s' = 0"
proof -
  have "(4300::nat) = 4 * 1075" by simp
  with blocks_of_failures[of 1075] halve_1075 show ?thesis by (simp only:) blast
qed

text \<open>
  C7, amended: for any sequence of (non-empty) observation rows fed to \<^verbatim>\<open>update_state\<close>,
  starting from a state whose length is in \<open>[0, length_max]\<close> (as that of the fresh state
  is), every call returns, the length stays in \<open>[0, length_max]\<close>, the bounds themselves
  are unchanged, and a length that an update leaves below \<open>length_min\<close> has
  \<open>restart_triggered\<close> set. The lower bound \<open>length_min\<close> is not enforced; repeated halving
  takes the length below it and in the end to 0.0.
\<close>

theorem C7_length_stays_nonnegative_and_capped:
  assumes "[] \<notin> set obs" "0 \<le> length_tr s" "length_tr s \<le> length_max s"
  shows "\<exists>s'. update_states s obs = Inr s' \<and> 0 \<le> length_tr s' \<and> length_tr s' \<le> length_max s'
     \<and> length_max s' = length_max s \<and> length_min s' = length_min s
     \<and> (obs \<noteq> [] \<and> length_tr s' < length_min s' \<longrightarrow> restart_triggered s')"
  using assms
proof (induction obs arbitrary: s)
  case Nil
  then show ?case by simp
next
  case (Cons Y obs)
  from Cons.prems(1) obtain s1 where s1: "update_state s Y = Inr s1"
    using update_state_Inr[of Y s] by auto
  note st = update_state_step[OF s1 Cons.prems(2,3)]
  show ?case
  proof (cases obs)
    case Nil
    with s1 st show ?thesis by simp
  next
    case (Cons Z rest)
    have "[] \<notin> set obs" using Cons.prems(1) by simp
    from Cons.IH[OF this, of s1] st
    have "\<exists>s'. update_states s1 obs = Inr s' \<and> 0 \<le> length_tr s' \<and> length_tr s' \<le> length_max s'
       \<and> length_max s' = length_max s1 \<and> length_min s' = length_min s1
       \<and> (obs \<noteq> [] \<and> length_tr s' < length_min s' \<longrightarrow> restart_triggered s')"
      by simp
    with s1 st show ?thesis by auto
  qed
qed

theorem C7_length_stays_nonnegative_and_capped_witness:
  "[] \<notin> set [[1], [2, 5], [0::real]]
   \<and> 0 \<le> length_tr (new_TurboState 3)
   \<and> length_tr (new_TurboState 3) \<le> length_max (new_TurboState 3)
   \<and> (\<exists>s'. update_states (new_TurboState 3) [[1], [2, 5], [0]] = Inr s'
          \<and> 0 \<le> length_tr s' \<and> length_tr s' \<le> 16 / 10 \<and> length_min s' = (1 / 2) ^ 7)"
proof -
  have h1: "[] \<notin> set [[1], [2, 5], [0::real]]" by simp
  have h2: "0 \<le> length_tr (new_TurboState 3)" by (simp add: new_TurboState_def)
  have h3: "length_tr (new_TurboState 3) \<le> length_max (new_TurboState 3)"
    by (simp add: new_TurboState_def)
  from C7_length_stays_nonnegative_and_capped [OF h1 h2 h3]
  obtain s' where "update_states (new_TurboState 3) [[1], [2, 5], [0]] = Inr s'"
    "0 \<le> length_tr s'" "length_tr s' \<le> length_max s'"
    "length_max s' = length_max (new_TurboState 3)"
    "length_min s' = length_min (new_TurboState 3)"
    by blast
  moreover have "length_max (new_TurboState 3) = 16 / 10" "length_min (new_TurboState 3) = (1 / 2) ^ 7"
    by (simp_all add: new_TurboState_def)
  ultimately have "\<exists>s'. update_states (new_TurboState 3) [[1], [2, 5], [0]] = Inr s'
          \<and> 0 \<le> length_tr s' \<and> length_tr s' \<le> 16 / 10 \<and> length_min s' = (1 / 2) ^ 7"
    by auto
  with h1 h2 h3 show ?thesis by blast
qed

text \<open>
  C8, evaluated on the code: a fresh state of dimension 1 and the ten observations
  1, 2, ..., 10, each larger than the one before by far more than the tolerance. The first
  one is compared with NaN and counts as a failure, so only nine successes are counted:
  the length is still 0.8 and the success counter is 9.
\<close>

theorem C8_ten_improving_from_fresh:
  "update_states (new_TurboState 1) [[1], [2], [3], [4], [5], [6], [7], [8], [9], [10]] =
     Inr \<lparr>dim_tr = 1, batch_size = 1, length_tr = 4 / 5, length_min = 1 / 128,
          length_max = 8 / 5, failure_counter = 0, failure_tolerance = 4,
          success_counter = 9, success_tolerance = 10, best_value = Fin 10,
          restart_triggered = False\<rparr>"
  by code_simp

text \<open>
  Once a best value exists the update does what C8 describes: an eleventh improving
  observation doubles the length to 1.6 and resets the success counter.
\<close>

lemma turbo_eleven_improving_from_fresh:
  "update_states (new_TurboState 1) [[1], [2], [3], [4], [5], [6], [7], [8], [9], [10], [11]] =
     Inr \<lparr>dim_tr = 1, batch_size = 1, length_tr = 8 / 5, length_min = 1 / 128,
          length_max = 8 / 5, failure_counter = 0, failure_tolerance = 4,
          success_counter = 0, success_tolerance = 10, best_value = Fin 11,
          restart_triggered = False\<rparr>"
  by code_simp

text \<open>
  The second half of C8 holds on the code: \<open>failure_tolerance\<close> (here 4) observations that
  do not improve, from a fresh state, halve the length to 0.4.
\<close>

lemma turbo_failure_tolerance_failures_from_fresh:
  "update_states (new_TurboState 1) [[5], [5], [4], [5]] =
     Inr \<lparr>dim_tr = 1, batch_size = 1, length_tr = 2 / 5, length_min = 1 / 128,
          length_max = 8 / 5, failure_counter = 0, failure_tolerance = 4,
          success_counter = 0, success_tolerance = 10, best_value = Fin 5,
          restart_triggered = False\<rparr>"
  by code_simp

section \<open>The acquisition function is the minimum over the fidelities\<close>

text \<open>The least value in the sense of \<^verbatim>\<open>torch.min\<close>.\<close>

lemma fmin_NaN_iff: "fmin a b = NaN \<longleftrightarrow> a = NaN \<or> b = NaN"
  by (cases a; cases b) simp_all

lemma fmin_choice:
  "a \<noteq> NaN \<Longrightarrow> b \<noteq> NaN \<Longrightarrow> (fmin a b = a \<or> fmin a b = b) \<and> fle (fmin a b) a \<and> fle (fmin a b) b"
  by (cases a; cases b) (auto simp: min_def)

lemma fle_trans: "fle a b \<Longrightarrow> fle b c \<Longrightarrow> fle a c"
  by (cases a; cases b; cases c) simp_all

lemma fle_not_fless: "fle a b \<Longrightarrow> \<not> fless b a"
  by (cases a; cases b) simp_all

lemma fless_NaN [simp]: "\<not> fless a NaN"
  by (cases a) simp_all

lemma foldl_fmin_NaN_iff: "foldl fmin a vs = NaN \<longleftrightarrow> a = NaN \<or> NaN \<in> set vs"
  by (induction vs arbitrary: a) (auto simp: fmin_NaN_iff)

lemma foldl_fmin_least:
  "a \<noteq> NaN \<Longrightarrow> NaN \<notin> set vs \<Longrightarrow>
     foldl fmin a vs \<in> set (a # vs) \<and> (\<forall>v\<in>set (a # vs). fle (foldl fmin a vs) v)"
proof (induction vs arbitrary: a)
  case Nil
  then show ?case by (cases a) simp_all
next
  case (Cons b vs)
  from Cons.prems have b: "b \<noteq> NaN" and vs: "NaN \<notin> set vs" by auto
  note c = fmin_choice[OF Cons.prems(1) b]
  from Cons.prems(1) b have n: "fmin a b \<noteq> NaN" by (simp add: fmin_NaN_iff)
  note ih = Cons.IH[OF n vs]
  let ?m = "foldl fmin (fmin a b) vs"
  from ih have m: "fle ?m (fmin a b)" by simp
  have "fle ?m a" "fle ?m b" using m c by (blast intro: fle_trans)+
  moreover from ih c have "?m \<in> set (a # b # vs)" by auto
  ultimately show ?case using ih by simp
qed

lemma fmin_list_NaN_iff: "vs \<noteq> [] \<Longrightarrow> fmin_list vs = NaN \<longleftrightarrow> NaN \<in> set vs"
  by (cases vs) (auto simp: fmin_list_def foldl_fmin_NaN_iff)

lemma fmin_list_least:
  "vs \<noteq> [] \<Longrightarrow> NaN \<notin> set vs \<Longrightarrow>
     fmin_list vs \<in> set vs \<and> (\<forall>v\<in>set vs. fle (fmin_list vs) v)"
  using foldl_fmin_least[of "hd vs" "tl vs"] by (cases vs) (auto simp: fmin_list_def)

lemma fmin_list_not_exceeded: "v \<in> set vs \<Longrightarrow> \<not> fless v (fmin_list vs)"
proof (cases "NaN \<in> set vs")
  case True
  assume "v \<in> set vs"
  then have "vs \<noteq> []" by auto
  with True have "fmin_list vs = NaN" by (simp add: fmin_list_NaN_iff)
  then show ?thesis by simp
next
  case False
  assume v: "v \<in> set vs"
  then have "vs \<noteq> []" by auto
  from fmin_list_least[OF this False] v have "fle (fmin_list vs) v" by blast
  then show ?thesis by (rule fle_not_fless)
qed

text \<open>The two loops and the reduction, when they return.\<close>

lemma collect_map_Inr:
  "collect (map f xs) = Inr vs \<Longrightarrow> length vs = length xs \<and> (\<forall>j<length xs. f (xs ! j) = Inr (vs ! j))"
proof (induction xs arbitrary: vs)
  case Nil
  then show ?case by simp
next
  case (Cons a xs)
  then obtain v vs' where v: "f a = Inr v" "collect (map f xs) = Inr vs'" "vs = v # vs'"
    by (auto split: sum.splits)
  from Cons.IH[OF v(2)] v show ?case
    by (auto simp: nth_Cons split: nat.splits)
qed

lemma collect_map_defined:
  "\<forall>x\<in>set xs. \<exists>v. f x = Inr v \<Longrightarrow> \<exists>vs. collect (map f xs) = Inr vs"
  by (induction xs) auto

lemma ucb_row_Inr: "ucb_row gp st Xs i = Inr row \<Longrightarrow> row = map (ucb_value gp st i) Xs"
  by (auto simp: ucb_row_def split: if_splits)

lemma spec_penalisers_Nil [simp]: "spec_penalisers gp st i k [] x = []"
  by (simp add: spec_penalisers_def)

lemma spec_penalisers_Cons:
  "spec_penalisers gp st i k ((pp, fid) # ps) x =
     (if wrap (num_of_fidelities st) fid = i then [penaliser gp st k pp fid x] else [])
       @ spec_penalisers gp st i (Suc k) ps x"
proof -
  have "[k..<Suc (k + length ps)] = k # [Suc k..<Suc (k + length ps)]"
    by (rule upt_conv_Cons) simp
  then show ?thesis by (simp add: spec_penalisers_def)
qed

lemma penalise_Inr:
  assumes "penalise gp st Xs k ps ucb = Inr ucb'"
    and "length ucb = num_of_fidelities st"
    and "\<forall>i<length ucb. length (ucb ! i) = length Xs"
  shows "length ucb' = length ucb \<and>
         (\<forall>i<length ucb. length (ucb' ! i) = length Xs \<and>
            (\<forall>r<length Xs. ucb' ! i ! r
                = foldl fmul (ucb ! i ! r) (spec_penalisers gp st i k ps (Xs ! r))))"
  using assms
proof (induction ps arbitrary: k ucb)
  case Nil
  then show ?case by simp
next
  case (Cons a ps)
  obtain pp fid where a: "a = (pp, fid)" by (cases a)
  define w where "w = wrap (length ucb) fid"
  define row where "row = map (\<lambda>(u, x). fmul u (penaliser gp st k pp fid x)) (zip (ucb ! w) Xs)"
  from Cons.prems(1) have fid: "in_range (length ucb) fid"
    and rec: "penalise gp st Xs (Suc k) ps (ucb[w := row]) = Inr ucb'"
    by (auto simp: a row_def w_def split: if_splits)
  have w: "w < length ucb"
    using fid by (auto simp: in_range_def wrap_def w_def)
  have wF: "wrap (num_of_fidelities st) fid = w"
    using Cons.prems(2) by (simp add: w_def)
  have l: "length (ucb[w := row]) = num_of_fidelities st" using Cons.prems(2) by simp
  have len: "\<forall>i<length (ucb[w := row]). length ((ucb[w := row]) ! i) = length Xs"
    using Cons.prems(3) w by (auto simp: row_def nth_list_update)
  note ih = Cons.IH[OF rec l len]
  show ?case
  proof (intro conjI allI impI)
    show "length ucb' = length ucb" using ih by simp
  next
    fix i assume i: "i < length ucb"
    show "length (ucb' ! i) = length Xs" using ih i by simp
  next
    fix i r assume i: "i < length ucb" and r: "r < length Xs"
    have "ucb' ! i ! r
        = foldl fmul ((ucb[w := row]) ! i ! r) (spec_penalisers gp st i (Suc k) ps (Xs ! r))"
      using ih i r by simp
    moreover have "(ucb[w := row]) ! i ! r
        = (if w = i then fmul (ucb ! i ! r) (penaliser gp st k pp fid (Xs ! r)) else ucb ! i ! r)"
      using i r w Cons.prems(3) by (auto simp: nth_list_update row_def)
    ultimately show "ucb' ! i ! r
        = foldl fmul (ucb ! i ! r) (spec_penalisers gp st i k (a # ps) (Xs ! r))"
      by (simp add: a spec_penalisers_Cons wF)
  qed
qed

lemma foldl_min_rows:
  assumes "length acc = n" "\<forall>row \<in> set rs. length row = n"
  shows "length (foldl (\<lambda>acc row. map (\<lambda>(a, b). fmin a b) (zip acc row)) acc rs) = n \<and>
         (\<forall>r<n. foldl (\<lambda>acc row. map (\<lambda>(a, b). fmin a b) (zip acc row)) acc rs ! r
                 = foldl fmin (acc ! r) (map (\<lambda>row. row ! r) rs))"
  using assms
proof (induction rs arbitrary: acc)
  case Nil
  then show ?case by simp
next
  case (Cons row rs)
  let ?acc = "map (\<lambda>(a, b). fmin a b) (zip acc row)"
  have l: "length ?acc = n" using Cons.prems by simp
  have rs: "\<forall>row \<in> set rs. length row = n" using Cons.prems by simp
  note ih = Cons.IH[OF l rs]
  show ?case
  proof (intro conjI allI impI)
    show "length (foldl (\<lambda>acc row. map (\<lambda>(a, b). fmin a b) (zip acc row)) acc (row # rs)) = n"
      using ih by simp
  next
    fix r assume r: "r < n"
    have "?acc ! r = fmin (acc ! r) (row ! r)" using r Cons.prems by simp
    then show "foldl (\<lambda>acc row. map (\<lambda>(a, b). fmin a b) (zip acc row)) acc (row # rs) ! r
        = foldl fmin (acc ! r) (map (\<lambda>row. row ! r) (row # rs))"
      using ih r by simp
  qed
qed

lemma min_rows_Inr:
  assumes "min_rows ucb = Inr af" "\<forall>row \<in> set ucb. length row = n"
  shows "ucb \<noteq> [] \<and> length af = n \<and> (\<forall>r<n. af ! r = fmin_list (map (\<lambda>row. row ! r) ucb))"
proof (cases ucb)
  case Nil
  with assms(1) show ?thesis by (simp add: min_rows_def)
next
  case (Cons r0 rs)
  with assms(1) have af: "af = foldl (\<lambda>acc row. map (\<lambda>(a, b). fmin a b) (zip acc row)) r0 rs"
    by (simp add: min_rows_def)
  from foldl_min_rows[of r0 n rs] assms(2) Cons show ?thesis
    by (simp add: af fmin_list_def)
qed

text \<open>On a well-formed controller neither loop raises.\<close>

lemma ucb_row_defined:
  assumes "well_formed gp st" "i < num_of_fidelities st"
  shows "\<exists>row. ucb_row gp st Xs i = Inr row"
  using assms
  by (auto simp: well_formed_def ucb_row_def model_readable_def in_range_def wrap_def)

lemma row_diff_defined: "length pp = length x \<Longrightarrow> row_diff pp x \<noteq> Inl RuntimeError"
  by (simp add: row_diff_def)

lemma penalise_defined:
  assumes "length (X_obs st) = F" "length (gp_hyperparams gp) = F" "num_of_fidelities st = F"
    "length (max_value st) = F" "k + length ps \<le> length (lipschitz_batch_list st)"
    "list_all (\<lambda>(pp, fid). 0 \<le> fid \<and> fid < int F \<and> length pp = d) ps"
    "\<forall>x\<in>set Xs. length x = d" "length ucb = F"
  shows "\<exists>ucb'. penalise gp st Xs k ps ucb = Inr ucb'"
  using assms
proof (induction ps arbitrary: k ucb)
  case Nil
  then show ?case by simp
next
  case (Cons a ps)
  obtain pp fid where a: "a = (pp, fid)" by (cases a)
  from Cons.prems(6) a have f: "0 \<le> fid" "fid < int F" "length pp = d"
    and rest: "list_all (\<lambda>(pp, fid). 0 \<le> fid \<and> fid < int F \<and> length pp = d) ps"
    by auto
  have 1: "model_readable gp st fid"
    using f Cons.prems(1,2,3) by (auto simp: model_readable_def in_range_def wrap_def)
  have 2: "in_range (length (max_value st)) fid" "in_range (length ucb) fid"
    using f Cons.prems(4,8) by (auto simp: in_range_def)
  have 3: "\<not> length (lipschitz_batch_list st) \<le> k" using Cons.prems(5) by simp
  have 4: "\<not> list_ex (\<lambda>x. row_diff pp x = Inl RuntimeError) Xs"
    using Cons.prems(7) f(3) by (auto simp: list_ex_iff row_diff_def)
  have 5: "Suc k + length ps \<le> length (lipschitz_batch_list st)" using Cons.prems(5) by simp
  from Cons.IH[OF Cons.prems(1,2,3,4) 5 rest Cons.prems(7)] Cons.prems(8)
  have "\<exists>ucb'. penalise gp st Xs (Suc k) ps (ucb[wrap (length ucb) fid :=
                    map (\<lambda>(u, x). fmul u (penaliser gp st k pp fid x))
                        (zip (ucb ! wrap (length ucb) fid) Xs)]) = Inr ucb'"
    by simp
  with 1 2 3 4 show ?case by (simp add: a)
qed

lemma penalise_length: "penalise gp st Xs k ps u = Inr u' \<Longrightarrow> length u' = length u"
proof (induction ps arbitrary: k u)
  case Nil
  then show ?case by simp
next
  case (Cons a ps)
  obtain pp fid where a: "a = (pp, fid)" by (cases a)
  from Cons.prems have
    "penalise gp st Xs (Suc k) ps (u[wrap (length u) fid :=
                map (\<lambda>(u, x). fmul u (penaliser gp st k pp fid x))
                    (zip (u ! wrap (length u) fid) Xs)]) = Inr u'"
    by (auto simp: a split: if_splits)
  from Cons.IH[OF this] show ?case by simp
qed

lemma build_af_defined:
  assumes "well_formed gp st" "\<forall>x\<in>set Xs. length x = dim_x st"
  shows "\<exists>af. build_af gp st Xs = Inr af"
proof -
  let ?F = "num_of_fidelities st"
  have "\<forall>i\<in>set [0..<?F]. \<exists>v. ucb_row gp st Xs i = Inr v"
    using ucb_row_defined[OF assms(1)] by simp
  from collect_map_defined[OF this] obtain ucb0 where
    c: "collect (map (ucb_row gp st Xs) [0..<?F]) = Inr ucb0" by blast
  from collect_map_Inr[OF c] have l0: "length ucb0 = ?F" by simp
  let ?ucb1 = "if soft_plus_transform st then map (map softplus) ucb0 else ucb0"
  have l1: "length ?ucb1 = ?F" using l0 by simp
  let ?ps = "zip (current_batch st) (current_batch_fids st)"
  from assms(1) have wf: "length (X_obs st) = ?F" "length (gp_hyperparams gp) = ?F"
    "length (max_value st) = ?F" "0 + length ?ps \<le> length (lipschitz_batch_list st)"
    "list_all (\<lambda>(pp, fid). 0 \<le> fid \<and> fid < int ?F \<and> length pp = dim_x st) ?ps"
    "0 < ?F"
    by (auto simp: well_formed_def)
  from penalise_defined[OF wf(1,2) refl wf(3,4,5) assms(2) l1] obtain ucb where
    p: "penalise gp st Xs 0 ?ps ?ucb1 = Inr ucb" by blast
  from penalise_length[OF p] l1 have "length ucb = ?F" by simp
  with wf(6) have "ucb \<noteq> []" by auto
  then obtain af where "min_rows ucb = Inr af" by (cases ucb) (auto simp: min_rows_def)
  with c p show ?thesis by (simp add: build_af_def)
qed


lemma init_controller_well_formed:
  assumes "init_controller v env bt ths b cb ib ll it = Inr st"
    "0 < env_num_of_fidelities env" "length (gp_hyperparams gp) = env_num_of_fidelities env"
  shows "well_formed gp st"
  using assms
  by (auto simp: init_controller_def well_formed_def Let_def
           split: if_splits sum.splits option.splits)

text \<open>
  C1. Whenever \<^verbatim>\<open>mfLiveBatch.build_af\<close> returns, for whatever candidate batch \<open>Xs\<close>, it
  returns one value per row, and the value of row \<open>r\<close> is the minimum, in the sense of
  \<^verbatim>\<open>torch.min\<close>, over all fidelities of the fidelity's bias-adjusted, penalised UCB at that
  row: it is NaN exactly when one of these is NaN, and otherwise it is one of them and at
  most each of them. Either way it does not exceed the UCB of the target fidelity 0.
  And the method does return, for every batch of rows of \<^verbatim>\<open>self.dim\<close> coordinates, on every
  well-formed controller: no value of \<^verbatim>\<open>beta\<close>, of a Lipschitz constant or of a
  denominator makes it raise.
\<close>

theorem C1_build_af_is_min_over_fidelities:
  "(\<forall>af. build_af gp st Xs = Inr af \<longrightarrow>
      0 < num_of_fidelities st \<and> length af = length Xs
      \<and> (\<forall>r<length Xs.
            af ! r = spec_fused gp st (Xs ! r)
          \<and> (af ! r = NaN
               \<longleftrightarrow> (\<exists>i<num_of_fidelities st. spec_fidelity_ucb gp st i (Xs ! r) = NaN))
          \<and> (af ! r \<noteq> NaN
               \<longrightarrow> (\<exists>i<num_of_fidelities st. af ! r = spec_fidelity_ucb gp st i (Xs ! r))
                 \<and> (\<forall>i<num_of_fidelities st. fle (af ! r) (spec_fidelity_ucb gp st i (Xs ! r))))
          \<and> \<not> fless (spec_fidelity_ucb gp st 0 (Xs ! r)) (af ! r)))
   \<and> (well_formed gp st \<and> (\<forall>x\<in>set Xs. length x = dim_x st)
        \<longrightarrow> (\<exists>af. build_af gp st Xs = Inr af))"
proof (intro conjI allI impI)
  fix af
  assume b: "build_af gp st Xs = Inr af"
  let ?F = "num_of_fidelities st"
  let ?tr = "\<lambda>u. if soft_plus_transform st then softplus u else u"
  let ?ps = "zip (current_batch st) (current_batch_fids st)"
  from b obtain ucb0 ucb where
    c: "collect (map (ucb_row gp st Xs) [0..<?F]) = Inr ucb0"
    and p: "penalise gp st Xs 0 ?ps (if soft_plus_transform st then map (map softplus) ucb0 else ucb0) = Inr ucb"
    and m: "min_rows ucb = Inr af"
    by (auto simp: build_af_def split: sum.splits)
  let ?ucb1 = "if soft_plus_transform st then map (map softplus) ucb0 else ucb0"
  from collect_map_Inr[OF c]
  have l0: "length ucb0 = ?F" and rows0: "\<forall>i<?F. ucb0 ! i = map (ucb_value gp st i) Xs"
    by (auto dest: ucb_row_Inr)
  have l1: "length ?ucb1 = ?F"
    and rows1: "\<forall>i<?F. ?ucb1 ! i = map (\<lambda>x. ?tr (ucb_value gp st i x)) Xs"
    using l0 rows0 by auto
  have len1: "\<forall>i<length ?ucb1. length (?ucb1 ! i) = length Xs"
    using l1 rows1 by simp
  from penalise_Inr[OF p l1 len1]
  have l2: "length ucb = ?F"
    and len2: "\<forall>i<?F. length (ucb ! i) = length Xs"
    and val2: "\<forall>i<?F. \<forall>r<length Xs. ucb ! i ! r
                 = foldl fmul (?ucb1 ! i ! r) (spec_penalisers gp st i 0 ?ps (Xs ! r))"
    using l1 by auto
  have val: "\<forall>i<?F. \<forall>r<length Xs. ucb ! i ! r = spec_fidelity_ucb gp st i (Xs ! r)"
    using val2 rows1 by (simp add: spec_fidelity_ucb_def)
  have "\<forall>row \<in> set ucb. length row = length Xs"
    using len2 l2 by (auto simp: in_set_conv_nth)
  from min_rows_Inr[OF m this]
  have ne: "ucb \<noteq> []" and laf: "length af = length Xs"
    and af: "\<forall>r<length Xs. af ! r = fmin_list (map (\<lambda>row. row ! r) ucb)"
    by auto
  have F: "0 < ?F" using ne l2 by (cases ucb) auto
  have cols: "map (\<lambda>row. row ! r) ucb = map (\<lambda>i. spec_fidelity_ucb gp st i (Xs ! r)) [0..<?F]"
    if "r < length Xs" for r
    using that val l2 by (auto simp: list_eq_iff_nth_eq)
  have fused: "af ! r = spec_fused gp st (Xs ! r)" if "r < length Xs" for r
    using af cols that by (simp add: spec_fused_def)
  show "0 < ?F" by (rule F)
  show "length af = length Xs" by (rule laf)
  fix r assume r: "r < length Xs"
  let ?vs = "map (\<lambda>i. spec_fidelity_ucb gp st i (Xs ! r)) [0..<?F]"
  have vs: "?vs \<noteq> []" using F by simp
  have set_vs: "v \<in> set ?vs \<longleftrightarrow> (\<exists>i<?F. v = spec_fidelity_ucb gp st i (Xs ! r))" for v
    by auto
  have a: "af ! r = fmin_list ?vs" using fused[OF r] by (simp add: spec_fused_def)
  show "af ! r = spec_fused gp st (Xs ! r)" by (rule fused[OF r])
  show "af ! r = NaN \<longleftrightarrow> (\<exists>i<?F. spec_fidelity_ucb gp st i (Xs ! r) = NaN)"
    unfolding a fmin_list_NaN_iff[OF vs] set_vs by metis
  have "spec_fidelity_ucb gp st 0 (Xs ! r) \<in> set ?vs"
    unfolding set_vs using F by blast
  then show "\<not> fless (spec_fidelity_ucb gp st 0 (Xs ! r)) (af ! r)"
    unfolding a by (rule fmin_list_not_exceeded)
  assume n: "af ! r \<noteq> NaN"
  then have "NaN \<notin> set ?vs" unfolding a fmin_list_NaN_iff[OF vs] .
  from fmin_list_least[OF vs this]
  have 1: "fmin_list ?vs \<in> set ?vs" and 2: "\<forall>v\<in>set ?vs. fle (fmin_list ?vs) v" by blast+
  from 1 show "\<exists>i<?F. af ! r = spec_fidelity_ucb gp st i (Xs ! r)"
    unfolding a set_vs .
  fix i assume "i < ?F"
  with 2 show "fle (af ! r) (spec_fidelity_ucb gp st i (Xs ! r))"
    unfolding a by (auto simp: set_vs)
next
  assume "well_formed gp st \<and> (\<forall>x\<in>set Xs. length x = dim_x st)"
  then show "\<exists>af. build_af gp st Xs = Inr af" using build_af_defined by blast
qed

text \<open>The example: three candidates at 0, 1 and 2.\<close>

lemmas ev_defs = ucb_row_def model_readable_def ucb_value_def model_mean_std_def bias_mean_std_def wrap_def in_range_def pen_denominator_def penaliser_def row_diff_def norm2_def

lemma st2_rows:
  "collect (map (ucb_row gp2 st2 [[0], [1], [2]]) [0..<num_of_fidelities st2])
     = Inr [[Num 2, Num 3, Num 4], [Num (41 / 10), Num (41 / 10), Num (41 / 10)]]"
proof -
  have "[0..<num_of_fidelities st2] = [0, Suc 0]" by (simp add: st2_def upt_rec)
  moreover have "ucb_row gp2 st2 [[0], [1], [2]] 0 = Inr [Num 2, Num 3, Num 4]"
    by (simp add: ev_defs gp2_def st2_def)
  moreover have "ucb_row gp2 st2 [[0], [1], [2]] (Suc 0)
       = Inr [Num (41 / 10), Num (41 / 10), Num (41 / 10)]"
    by (simp add: ev_defs gp2_def st2_def)
  ultimately show ?thesis by simp
qed

lemma st2_penalise:
  "penalise gp2 st2 [[0], [1], [2]] 0 (zip (current_batch st2) (current_batch_fids st2))
      [[Num 2, Num 3, Num 4], [Num (41 / 10), Num (41 / 10), Num (41 / 10)]]
     = Inr [[Num 2, Num 3, Num 4], [Num 0, Num (41 / 20), Num (41 / 10)]]"
  by (simp add: st2_def gp2_def ev_defs)

lemma st2_build_af: "build_af gp2 st2 [[0], [1], [2]] = Inr [Num 0, Num (41 / 20), Num 4]"
proof -
  have "\<not> soft_plus_transform st2" by (simp add: st2_def)
  moreover have "min_rows [[Num 2, Num 3, Num 4], [Num 0, Num (41 / 20), Num (41 / 10)]]
       = Inr [Num 0, Num (41 / 20), Num 4]"
    by (simp add: min_rows_def)
  ultimately show ?thesis
    by (simp add: build_af_def st2_rows st2_penalise)
qed

text \<open>
  With \<^verbatim>\<open>beta = [0, 0]\<close> the bias term of every fidelity is \<open>0 * (x / 0)\<close>, which is NaN, and the
  method returns NaN in every row; with a Lipschitz constant 0 the denominator of the
  penaliser is \<open>0 / 0 + 2 / 0\<close>, NaN again. Neither raises.
\<close>

lemma st2_build_af_zero_beta:
  "build_af gp2 (st2\<lparr>beta := [Num 0, Num 0]\<rparr>) [[0], [1], [2]] = Inr [NaN, NaN, NaN]"
proof -
  have "[0..<num_of_fidelities st2] = [0, Suc 0]" by (simp add: st2_def upt_rec)
  moreover have "ucb_row gp2 (st2\<lparr>beta := [Num 0, Num 0]\<rparr>) [[0], [1], [2]] 0
       = Inr [NaN, NaN, NaN]"
    by (simp add: ev_defs gp2_def st2_def)
  moreover have "ucb_row gp2 (st2\<lparr>beta := [Num 0, Num 0]\<rparr>) [[0], [1], [2]] (Suc 0)
       = Inr [NaN, NaN, NaN]"
    by (simp add: ev_defs gp2_def st2_def)
  moreover have "penalise gp2 (st2\<lparr>beta := [Num 0, Num 0]\<rparr>) [[0], [1], [2]] 0 [([0], 1)]
      [[NaN, NaN, NaN], [NaN, NaN, NaN]] = Inr [[NaN, NaN, NaN], [NaN, NaN, NaN]]"
    by (simp add: st2_def gp2_def ev_defs)
  ultimately show ?thesis
    by (simp add: build_af_def st2_def min_rows_def)
qed

lemma st2_build_af_zero_lipschitz:
  "build_af gp2 (st2\<lparr>lipschitz_batch_list := [0]\<rparr>) [[0], [1], [2]] = Inr [NaN, NaN, NaN]"
proof -
  have "[0..<num_of_fidelities st2] = [0, Suc 0]" by (simp add: st2_def upt_rec)
  moreover have "ucb_row gp2 (st2\<lparr>lipschitz_batch_list := [0]\<rparr>) [[0], [1], [2]] 0
       = Inr [Num 2, Num 3, Num 4]"
    by (simp add: ev_defs gp2_def st2_def)
  moreover have "ucb_row gp2 (st2\<lparr>lipschitz_batch_list := [0]\<rparr>) [[0], [1], [2]] (Suc 0)
       = Inr [Num (41 / 10), Num (41 / 10), Num (41 / 10)]"
    by (simp add: ev_defs gp2_def st2_def)
  moreover have "penalise gp2 (st2\<lparr>lipschitz_batch_list := [0]\<rparr>) [[0], [1], [2]] 0 [([0], 1)]
      [[Num 2, Num 3, Num 4], [Num (41 / 10), Num (41 / 10), Num (41 / 10)]]
     = Inr [[Num 2, Num 3, Num 4], [NaN, NaN, NaN]]"
    by (simp add: st2_def gp2_def ev_defs)
  ultimately show ?thesis
    by (simp add: build_af_def st2_def min_rows_def)
qed

theorem C1_build_af_is_min_over_fidelities_witness:
  "well_formed gp2 st2 \<and> list_all (\<lambda>x. length x = dim_x st2) [[0], [1], [2]]
   \<and> (\<exists>af. build_af gp2 st2 [[0], [1], [2]] = Inr af)
   \<and> build_af gp2 st2 [[0], [1], [2]] = Inr [Num 0, Num (41 / 20), Num 4]
   \<and> 0 < num_of_fidelities st2
   \<and> spec_fused gp2 st2 [0] = Num 0 \<and> spec_fused gp2 st2 [1] = Num (41 / 20)
   \<and> spec_fused gp2 st2 [2] = Num 4
   \<and> fle (Num (41 / 20)) (spec_fidelity_ucb gp2 st2 0 [1])
   \<and> \<not> fless (spec_fidelity_ucb gp2 st2 0 [1]) (Num (41 / 20))"
proof -
  note c = C1_build_af_is_min_over_fidelities[of gp2 st2 "[[0], [1], [2]]"]
  have w: "well_formed gp2 st2" by (simp add: well_formed_def gp2_def st2_def)
  have d: "\<forall>x\<in>set [[0], [1], [2::real]]. length x = dim_x st2" by (simp add: st2_def)
  from c w d have e: "\<exists>af. build_af gp2 st2 [[0], [1], [2]] = Inr af" by blast
  note r = c[THEN conjunct1, rule_format, OF st2_build_af]
  from r have F: "0 < num_of_fidelities st2" by blast
  note a = r[THEN conjunct2, THEN conjunct2, rule_format]
  have nth: "[Num 0, Num (41 / 20), Num 4] ! 0 = Num 0"
    "[Num 0, Num (41 / 20), Num 4] ! 1 = Num (41 / 20)"
    "[Num 0, Num (41 / 20), Num 4] ! 2 = Num 4"
    "[[0], [1], [2::real]] ! 0 = [0]" "[[0], [1], [2::real]] ! 1 = [1]"
    "[[0], [1], [2::real]] ! 2 = [2]"
    by simp_all
  have len: "0 < length [[0], [1], [2::real]]" "1 < length [[0], [1], [2::real]]"
    "2 < length [[0], [1], [2::real]]"
    by simp_all
  from a[OF len(1)] have r0: "spec_fused gp2 st2 [0] = Num 0" unfolding nth by simp
  from a[OF len(2)] have r1: "spec_fused gp2 st2 [1] = Num (41 / 20)" unfolding nth by simp
  from a[OF len(3)] have r2: "spec_fused gp2 st2 [2] = Num 4" unfolding nth by simp
  from a[OF len(2)] F have l: "fle (Num (41 / 20)) (spec_fidelity_ucb gp2 st2 0 [1])"
    unfolding nth by blast
  from a[OF len(2)] have n: "\<not> fless (spec_fidelity_ucb gp2 st2 0 [1]) (Num (41 / 20))"
    unfolding nth by blast
  from w d e st2_build_af F r0 r1 r2 l n show ?thesis by (simp add: list_all_iff)
qed

section \<open>The batch-filling loop and the cost budget\<close>

text \<open>What a call of \<^verbatim>\<open>optimise_af\<close> and the steps around it leave untouched.\<close>

lemma count_fidelity_frame:
  "count_fidelity st m = Inr st' \<Longrightarrow>
     \<exists>ths cl. st' = st\<lparr>fidelity_thresholds := ths, fidelity_count_list := cl\<rparr>"
  apply (rule exI[of _ "fidelity_thresholds st'"], rule exI[of _ "fidelity_count_list st'"])
  apply (auto simp add: count_fidelity_def Let_def split: if_splits)
  done

lemma pick_fidelity_frame:
  "pick_fidelity scaled gp st x = Inr (q, st') \<Longrightarrow>
     \<exists>ths cl. st' = st\<lparr>fidelity_thresholds := ths, fidelity_count_list := cl\<rparr>"
  by (auto simp: pick_fidelity_def split: sum.splits dest: count_fidelity_frame)

lemma optimise_af_frame:
  "optimise_af v gp st orc = Inr (q, st') \<Longrightarrow>
     \<exists>ths cl. st' = st\<lparr>fidelity_thresholds := ths, fidelity_count_list := cl\<rparr>"
  apply (simp add: optimise_af_def split: if_splits sum.splits)
    apply (rule exI[of _ "fidelity_thresholds st"], rule exI[of _ "fidelity_count_list st"], simp)
   apply (erule pick_fidelity_frame)
  apply (erule pick_fidelity_frame)
  done

lemma append_lipschitz_frame:
  "append_lipschitz gp st x m = Inr st' \<Longrightarrow> \<exists>l. st' = st\<lparr>lipschitz_batch_list := l\<rparr>"
  apply (rule exI[of _ "lipschitz_batch_list st'"])
  apply (auto simp: append_lipschitz_def split: if_splits sum.splits)
  done

lemma py_get_Inr: "py_get xs i = Inr c \<Longrightarrow> in_range (length xs) i \<and> c = xs ! wrap (length xs) i"
  by (auto simp: py_get_def split: if_splits)

lemma wrap_less: "in_range n i \<Longrightarrow> wrap n i < n"
  by (auto simp: in_range_def wrap_def)

text \<open>One pass of the batch-filling loop.\<close>

lemma fill_batch_pass:
  assumes "fill_batch gp st (orc # rest) = Some (Inr (st', qs))" "batch_costs st < cost_budget st"
  shows "\<exists>q st2 qs'. qs = q # qs' \<and> in_range (length (fidelity_costs st)) (snd q)
           \<and> fill_batch gp st2 rest = Some (Inr (st', qs'))
           \<and> batch_costs st2 = batch_costs st + query_cost (fidelity_costs st) q
           \<and> cost_budget st2 = cost_budget st \<and> fidelity_costs st2 = fidelity_costs st"
proof -
  from assms obtain new_X new_M st1 c st2 qs' where
    o: "optimise_af MfLiveBatch gp st orc = Inr ((new_X, new_M), st1)"
    and c: "py_get (fidelity_costs st1) new_M = Inr c"
    and a: "append_lipschitz gp (st1\<lparr>current_batch := current_batch st1 @ [new_X],
                                  current_batch_fids := current_batch_fids st1 @ [new_M],
                                  batch_costs := batch_costs st1 + c\<rparr>) new_X new_M = Inr st2"
    and r: "fill_batch gp st2 rest = Some (Inr (st', qs'))"
    and qs: "qs = (new_X, new_M) # qs'"
    by (auto split: sum.splits if_splits option.splits prod.splits)
  from optimise_af_frame[OF o] obtain ths cl where
    st1: "st1 = st\<lparr>fidelity_thresholds := ths, fidelity_count_list := cl\<rparr>" by blast
  from append_lipschitz_frame[OF a] obtain l where
    st2: "st2 = st1\<lparr>current_batch := current_batch st1 @ [new_X],
                                  current_batch_fids := current_batch_fids st1 @ [new_M],
                                  batch_costs := batch_costs st1 + c, lipschitz_batch_list := l\<rparr>" by blast
  from py_get_Inr[OF c] have "in_range (length (fidelity_costs st)) new_M"
     "c = query_cost (fidelity_costs st) (new_X, new_M)"
    by (simp_all add: st1 query_cost_def)
  with r qs show ?thesis
    by (intro exI[of _ "(new_X, new_M)"] exI[of _ st2] exI[of _ qs']) (simp add: st1 st2)
qed

lemma fill_batch_costs:
  assumes "fill_batch gp st orcs = Some (Inr (st', qs))"
  shows "cost_budget st \<le> batch_costs st'
       \<and> batch_costs st' = batch_costs st + batch_cost (fidelity_costs st) qs
       \<and> (qs = [] \<longleftrightarrow> cost_budget st \<le> batch_costs st)
       \<and> (qs \<noteq> [] \<longrightarrow> batch_costs st' - query_cost (fidelity_costs st) (last qs) < cost_budget st)
       \<and> list_all (\<lambda>q. in_range (length (fidelity_costs st)) (snd q)) qs
       \<and> cost_budget st' = cost_budget st \<and> fidelity_costs st' = fidelity_costs st"
  using assms
proof (induction orcs arbitrary: st qs)
  case Nil
  then show ?case by (auto simp: batch_cost_def split: if_splits)
next
  case (Cons orc rest)
  show ?case
  proof (cases "batch_costs st < cost_budget st")
    case False
    with Cons.prems show ?thesis by (auto simp: batch_cost_def)
  next
    case True
    from fill_batch_pass[OF Cons.prems True] obtain q st2 qs' where
      q: "qs = q # qs'" "in_range (length (fidelity_costs st)) (snd q)"
      "fill_batch gp st2 rest = Some (Inr (st', qs'))"
      "batch_costs st2 = batch_costs st + query_cost (fidelity_costs st) q"
      "cost_budget st2 = cost_budget st" "fidelity_costs st2 = fidelity_costs st"
      by blast
    from Cons.IH[OF q(3)] q True show ?thesis
      by (auto simp: batch_cost_def)
  qed
qed

lemma fill_batch_returns:
  assumes "list_all (\<lambda>c. 0 < c) (fidelity_costs st)"
    "nat (cost_budget st - batch_costs st) \<le> length orcs"
  shows "fill_batch gp st orcs \<noteq> None"
  using assms
proof (induction orcs arbitrary: st)
  case Nil
  then show ?case by simp
next
  case (Cons orc rest)
  show ?case
  proof (cases "batch_costs st < cost_budget st")
    case False
    then show ?thesis by simp
  next
    case True
    show ?thesis
    proof (cases "optimise_af MfLiveBatch gp st orc")
      case (Inl e)
      with True show ?thesis by simp
    next
      case (Inr r)
      obtain new_X new_M st1 where r: "r = ((new_X, new_M), st1)" by (metis prod.exhaust)
      from optimise_af_frame[OF Inr[unfolded r]] obtain ths cl where
        st1: "st1 = st\<lparr>fidelity_thresholds := ths, fidelity_count_list := cl\<rparr>" by blast
      show ?thesis
      proof (cases "length new_X \<noteq> dim_x st1")
        case True
        with \<open>batch_costs st < cost_budget st\<close> Inr r show ?thesis by simp
      next
        case False
        note len = this
        show ?thesis
        proof (cases "py_get (fidelity_costs st1) new_M")
          case (Inl e)
          with True Inr r len show ?thesis by simp
        next
          case c: (Inr c)
          from py_get_Inr[OF c] have cpos: "0 < c"
            using Cons.prems(1) wrap_less[of "length (fidelity_costs st)" new_M]
            by (auto simp: st1 list_all_length)
          let ?st = "st1\<lparr>current_batch := current_batch st1 @ [new_X],
                                  current_batch_fids := current_batch_fids st1 @ [new_M],
                                  batch_costs := batch_costs st1 + c\<rparr>"
          show ?thesis
          proof (cases "append_lipschitz gp ?st new_X new_M")
            case (Inl e)
            with True Inr r len c show ?thesis by simp
          next
            case a: (Inr st2)
            from append_lipschitz_frame[OF a] obtain l where
              st2: "st2 = ?st\<lparr>lipschitz_batch_list := l\<rparr>" by blast
            have "fill_batch gp st2 rest \<noteq> None"
              using Cons.prems cpos True by (intro Cons.IH) (auto simp: st2 st1)
            with True Inr r len c a show ?thesis
              by (auto split: option.splits sum.splits prod.splits)
          qed
        qed
      qed
    qed
  qed
qed

lemma update_beta_frame: "update_beta v st = Inr st' \<Longrightarrow> \<exists>b. st' = st\<lparr>beta := b\<rparr>"
  apply (rule exI[of _ "beta st'"])
  apply (auto simp: update_beta_def Let_def split: if_splits sum.splits)
  done

lemma query_cost_421:
  "in_range 3 (snd q) \<Longrightarrow> 1 \<le> query_cost [4, 2, 1] q \<and> query_cost [4, 2, 1] q \<le> 4"
  using wrap_less[of 3 "snd q"]
  by (auto simp: query_cost_def less_Suc_eq numeral_3_eq_3)

text \<open>
  C2, amended: with \<^verbatim>\<open>cost_budget = 4\<close> and costs \<^verbatim>\<open>[4, 2, 1]\<close>, a call of
  \<^verbatim>\<open>mfLiveBatch.optim_loop\<close> that is given at least \<open>4 - batch_costs\<close> oracles gets through
  its batch-filling loop; and whenever the call returns, it has dispatched at least one
  query exactly when the batch cost it started with was below 4, the batch cost at the
  end of the loop (the cost carried in plus the cost of the dispatched queries) is at
  least 4, and when something was dispatched it is at most 7: the last query is chosen
  while the cost is still at most 3 and may cost 4.
\<close>

theorem C2_batch_filling_cost_bounds:
  assumes fc: "fidelity_costs st = [4, 2, 1]" and cb: "cost_budget st = 4"
  shows "(nat (4 - batch_costs st) \<le> length (oracles inp) \<longrightarrow> optim_loop_mfLiveBatch st inp \<noteq> None)
       \<and> (\<forall>st' qs. optim_loop_mfLiveBatch st inp = Some (Inr (st', qs)) \<longrightarrow>
              ((qs = []) = (4 \<le> batch_costs st))
              \<and> 4 \<le> batch_costs st + batch_cost [4, 2, 1] qs
              \<and> (qs \<noteq> [] \<longrightarrow> batch_costs st + batch_cost [4, 2, 1] qs \<le> 7))"
proof (cases "update_beta MfLiveBatch st")
  case (Inl e)
  then show ?thesis by (simp add: optim_loop_mfLiveBatch_def)
next
  case (Inr st1)
  from update_beta_frame[OF Inr] obtain b where st1: "st1 = st\<lparr>beta := b\<rparr>" by blast
  let ?s0 = "st1\<lparr>lipschitz_batch_list := [], current_batch := query_list inp,
                  current_batch_fids := fidelities_list inp\<rparr>"
  show ?thesis
  proof (cases "initial_lipschitz (belief inp) ?s0 (query_list inp) (fidelities_list inp)")
    case (Inl e)
    with Inr show ?thesis by (simp add: optim_loop_mfLiveBatch_def)
  next
    case lips: (Inr lips)
    let ?s = "st1\<lparr>lipschitz_batch_list := lips, current_batch := query_list inp,
                  current_batch_fids := fidelities_list inp\<rparr>"
    have s: "fidelity_costs ?s = [4, 2, 1]" "cost_budget ?s = 4" "batch_costs ?s = batch_costs st"
      using fc cb by (simp_all add: st1)
    have ret: "fill_batch (belief inp) ?s (oracles inp) \<noteq> None"
      if "nat (4 - batch_costs st) \<le> length (oracles inp)"
      using that by (intro fill_batch_returns) (simp_all add: s)
    show ?thesis
    proof (cases "fill_batch (belief inp) ?s (oracles inp)")
      case None
      with Inr lips ret show ?thesis by (auto simp: optim_loop_mfLiveBatch_def)
    next
      case r: (Some r)
      show ?thesis
      proof (cases r)
        case (Inl e)
        with Inr lips r show ?thesis by (simp add: optim_loop_mfLiveBatch_def)
      next
        case r': (Inr p)
        obtain st2 qs where p: "p = (st2, qs)" by (cases p)
        note c = fill_batch_costs[OF r[unfolded r' p], unfolded s]
        have bounds: "((qs = []) = (4 \<le> batch_costs st))
                \<and> 4 \<le> batch_costs st + batch_cost [4, 2, 1] qs
                \<and> (qs \<noteq> [] \<longrightarrow> batch_costs st + batch_cost [4, 2, 1] qs \<le> 7)"
        proof (intro conjI impI)
          show "(qs = []) = (4 \<le> batch_costs st)" using c by blast
          show "4 \<le> batch_costs st + batch_cost [4, 2, 1] qs" using c by simp
          assume ne: "qs \<noteq> []"
          then have "last qs \<in> set qs" by simp
          with c have "in_range 3 (snd (last qs))" by (auto simp: list_all_iff numeral_3_eq_3)
          from query_cost_421[OF this] c ne
          show "batch_costs st + batch_cost [4, 2, 1] qs \<le> 7" by auto
        qed
        show ?thesis
        proof (cases "after_step MfLiveBatch (belief inp) st2 (step_result inp)")
          case (Inl e)
          with Inr lips r r' p show ?thesis by (simp add: optim_loop_mfLiveBatch_def)
        next
          case a: (Inr st3)
          with Inr lips r r' p bounds show ?thesis by (simp add: optim_loop_mfLiveBatch_def)
        qed
      qed
    qed
  qed
qed

subsection \<open>Two runs of the example controller\<close>

lemmas idx_defs = in_range_def wrap_def py_get_def

lemmas loop_defs = optim_loop_def optim_loop_mfLiveBatch_def update_beta_def initial_lipschitz_def
  after_step_def refresh_raises_def update_model_raises_def bias_update_set_def
  append_lipschitz_def calculate_local_lipschitz_def

lemmas ingest_defs = ingest_one_def append_obs_def bias_step_def check_bias_def
  update_max_value_def release_cost_def

lemmas row_defs = ucb_row_def model_readable_def ucb_value_def model_mean_std_def bias_mean_std_def

lemmas pen_defs = model_readable_def model_mean_std_def pen_denominator_def penaliser_def
  row_diff_def norm2_def

lemmas pick_defs = pick_fidelity_def choose_fidelity_def exceeds_threshold_def count_fidelity_def
  model_readable_def model_mean_std_def

lemmas st3_defs = st3_loop_end_def st3_one_query_def st3_loop_start_def st3_after_all_def
  st3_after_none_def st3_def

lemma upt_0_3: "[0..<3] = [0, 1, 2]"
  by (simp add: upt_rec)

lemma upt_0_2: "[0..<2] = [0, 1]"
  by (simp add: upt_rec)

lemma walk_down_2:
  "walk_down test 2 =
     (case test 2 of Inl e \<Rightarrow> Inl e
      | Inr b \<Rightarrow> if b then Inr 2
                 else (case test 1 of Inl e \<Rightarrow> Inl e | Inr b \<Rightarrow> if b then Inr 1 else Inr 0))"
  unfolding numeral_2_eq_2 One_nat_def by (auto split: sum.splits)

lemma st3_constructed:
  "init_controller MfLiveBatch env3 (Some 2) (Some [1 / 10, 1, 1 / 10]) 10 4 (1 / 10) True False
     = Inr st3"
  by (simp add: init_controller_def init_cost_thresholds_def cost_ratio_def env3_def st3_def
        Let_def upt_rec numeral_3_eq_3)

text \<open>The first call: four queries at the cheapest fidelity, cost 4 in all.\<close>

lemma first_call_all:
  "optim_loop MfLiveBatch st3 round0_all
     = Some (Inr (st3_after_all, [([1 / 4], 2), ([1 / 2], 2), ([3 / 4], 2), ([1], 2)]))"
  by (simp add: round0_all_def loop_defs cold_oracle_def st3_def st3_after_all_def gp3_def
        idx_defs optimise_af_def ingest_defs upt_0_3 upt_0_2 del: upt_Suc)

lemma first_call_none:
  "optim_loop MfLiveBatch st3 round0_none
     = Some (Inr (st3_after_none, [([1 / 4], 2), ([1 / 2], 2), ([3 / 4], 2), ([1], 2)]))"
  by (simp add: round0_none_def round0_all_def loop_defs cold_oracle_def st3_def
        st3_after_none_def gp3_def idx_defs optimise_af_def ingest_defs upt_0_3 upt_0_2
        del: upt_Suc)

text \<open>
  The second call when nothing has come back: the batch cost is 4 already, the loop
  body never runs and the batch handed to \<^verbatim>\<open>env.step\<close> is empty.
\<close>

lemma second_call_none:
  "optim_loop MfLiveBatch st3_after_none round1
     = Some (Inr (st3_after_none \<lparr> current_time := 2, current_batch := [],
                    current_batch_fids := [], lipschitz_batch_list := [] \<rparr>, []))"
  by (simp add: round1_def loop_defs st3_def st3_after_none_def gp3_def idx_defs
        upt_0_3 upt_0_2 del: upt_Suc)

text \<open>
  The second call when all four observations have come back. First pass: the point 1,
  where fidelity 2 is uncertain (standard deviation 1 against the threshold 0.1), at
  cost 1. Second pass: the point 0, where fidelity 2 is certain and the prior of fidelity
  1 (0.6) is below its threshold 1, so the target fidelity is chosen, at cost 4.
\<close>

lemma second_call_build_af_1: "build_af gp3 st3_loop_start [[1]] = Inr [Num (6 / 5)]"
  apply (simp add: build_af_def st3_defs upt_0_3 del: upt_Suc)
  apply (simp add: row_defs gp3_def idx_defs min_rows_def)
  done

lemma second_call_pick_1:
  "pick_fidelity False gp3 st3_loop_start [1]
     = Inr (([1], 2), st3_loop_start\<lparr>fidelity_count_list := [0, 0, 1]\<rparr>)"
  by (simp add: pick_defs st3_defs gp3_def idx_defs walk_down_2 Let_def)

lemma second_call_optimise_af_1:
  "optimise_af MfLiveBatch gp3 st3_loop_start
       \<lparr> uniform_point = [1 / 3], candidates = [[1]], optimised = [1] \<rparr>
     = Inr (([1], 2), st3_loop_start\<lparr>fidelity_count_list := [0, 0, 1]\<rparr>)"
proof -
  have "current_time st3_loop_start = 1" "\<not> grid_search st3_loop_start"
    "\<not> increasing_thresholds st3_loop_start"
    by (simp_all add: st3_defs)
  then show ?thesis
    by (simp add: optimise_af_def build_af_of_def second_call_build_af_1 argmax_def
          second_call_pick_1)
qed

lemma second_call_lipschitz_1:
  "append_lipschitz gp3
       (st3_loop_start\<lparr>fidelity_count_list := [0, 0, 1], current_batch := [[1]],
                        current_batch_fids := [2], batch_costs := 1\<rparr>) [1] 2
     = Inr st3_one_query"
  by (simp add: append_lipschitz_def calculate_local_lipschitz_def st3_defs gp3_def idx_defs)

lemma second_call_build_af_2: "build_af gp3 st3_one_query [[0]] = Inr [Num (1 / 10)]"
  apply (simp add: build_af_def st3_defs upt_0_3 del: upt_Suc)
  apply (simp add: row_defs pen_defs gp3_def idx_defs min_rows_def)
  done

lemma second_call_pick_2:
  "pick_fidelity False gp3 st3_one_query [0]
     = Inr (([0], 0), st3_one_query\<lparr>fidelity_count_list := [1, 0, 1]\<rparr>)"
  by (simp add: pick_defs st3_defs gp3_def idx_defs walk_down_2 Let_def)

lemma second_call_optimise_af_2:
  "optimise_af MfLiveBatch gp3 st3_one_query
       \<lparr> uniform_point = [2 / 3], candidates = [[0]], optimised = [0] \<rparr>
     = Inr (([0], 0), st3_one_query\<lparr>fidelity_count_list := [1, 0, 1]\<rparr>)"
proof -
  have "current_time st3_one_query = 1" "\<not> grid_search st3_one_query"
    "\<not> increasing_thresholds st3_one_query"
    by (simp_all add: st3_defs)
  then show ?thesis
    by (simp add: optimise_af_def build_af_of_def second_call_build_af_2 argmax_def
          second_call_pick_2)
qed

lemma second_call_fill:
  "fill_batch gp3 st3_loop_start (oracles round1)
     = Some (Inr (st3_loop_end, [([1], 2), ([0], 0)]))"
proof -
  have 1: "cost_budget st3_loop_start = 4"
    "dim_x st3_loop_start = 1" "fidelity_costs st3_loop_start = [4, 2, 1]"
    by (simp_all add: st3_defs)
  have 2: "cost_budget st3_one_query = 4"
    "dim_x st3_one_query = 1" "fidelity_costs st3_one_query = [4, 2, 1]"
    by (simp_all add: st3_defs)
  have 3: "append_lipschitz gp3
       (st3_one_query\<lparr>fidelity_count_list := [1, 0, 1], current_batch := [[1], [0]],
                       current_batch_fids := [2, 0], batch_costs := 5\<rparr>) [0] 0
     = Inr st3_loop_end"
    by (simp add: append_lipschitz_def st3_defs)
  have 4: "\<not> batch_costs st3_loop_end < cost_budget st3_loop_end"
    by (simp add: st3_defs)
  have 5: "current_batch st3_loop_start = []" "current_batch_fids st3_loop_start = []"
    "batch_costs st3_loop_start = 0"
    "current_batch st3_one_query = [[1]]" "current_batch_fids st3_one_query = [2]"
    "batch_costs st3_one_query = 1"
    by (simp_all add: st3_defs)
  show ?thesis
    by (simp add: round1_def second_call_optimise_af_1 second_call_optimise_af_2 1 2 4 5
          idx_defs second_call_lipschitz_1 3)
qed

lemma second_call_all:
  "optim_loop MfLiveBatch st3_after_all round1
     = Some (Inr (st3_loop_end \<lparr> current_time := 2 \<rparr>, [([1], 2), ([0], 0)]))"
proof -
  have 1: "update_beta MfLiveBatch st3_after_all = Inr st3_after_all"
    by (simp add: update_beta_def st3_defs)
  have 2: "initial_lipschitz gp3 st3_loop_start (query_list round1) (fidelities_list round1)
     = Inr []"
    by (simp add: initial_lipschitz_def round1_def)
  have 3: "st3_after_all\<lparr>lipschitz_batch_list := [], current_batch := query_list round1,
          current_batch_fids := fidelities_list round1\<rparr> = st3_loop_start"
    by (simp add: round1_def st3_loop_start_def)
  have 4: "belief round1 = gp3" "step_result round1 = None"
    by (simp_all add: round1_def)
  have 5: "refresh_raises MfLiveBatch st3_loop_end = None"
    by (simp add: refresh_raises_def st3_defs in_range_def upt_0_2 del: upt_Suc)
  have 6: "current_time st3_loop_end = 1"
    by (simp add: st3_defs)
  show ?thesis
    by (simp add: optim_loop_def optim_loop_mfLiveBatch_def 1 2 3 4 second_call_fill
          after_step_def 5 6)
qed

text \<open>
  C2, as stated, fails. The controller \<open>st3\<close> is the one that the constructor builds
  for costs \<^verbatim>\<open>[4, 2, 1]\<close> and \<^verbatim>\<open>cost_budget = 4\<close>. When all of its first batch has come back,
  the second call dispatches a query of cost 1 and then one of cost 4, a total of 5; when
  nothing has come back, the second call dispatches no query at all.
\<close>

theorem C2_overspend_and_empty_round_counterexample:
  "init_controller MfLiveBatch env3 (Some 2) (Some [1 / 10, 1, 1 / 10]) 10 4 (1 / 10) True False
     = Inr st3
   \<and> fidelity_costs st3 = [4, 2, 1] \<and> cost_budget st3 = 4
   \<and> dispatched (optim_loops MfLiveBatch st3 [round0_all, round1])
       = Some [[([1 / 4], 2), ([1 / 2], 2), ([3 / 4], 2), ([1], 2)], [([1], 2), ([0], 0)]]
   \<and> batch_cost [4, 2, 1] [([1], 2), ([0], 0)] = 5
   \<and> dispatched (optim_loops MfLiveBatch st3 [round0_none, round1])
       = Some [[([1 / 4], 2), ([1 / 2], 2), ([3 / 4], 2), ([1], 2)], []]"
proof -
  have "fidelity_costs st3 = [4, 2, 1]" "cost_budget st3 = 4"
    by (simp_all add: st3_def)
  moreover have "batch_cost [4, 2, 1] [([1], 2), ([0], 0)] = 5"
    by (simp add: batch_cost_def query_cost_def wrap_def)
  moreover have "dispatched (optim_loops MfLiveBatch st3 [round0_all, round1])
       = Some [[([1 / 4], 2), ([1 / 2], 2), ([3 / 4], 2), ([1], 2)], [([1], 2), ([0], 0)]]"
    by (simp add: first_call_all second_call_all dispatched_def)
  moreover have "dispatched (optim_loops MfLiveBatch st3 [round0_none, round1])
       = Some [[([1 / 4], 2), ([1 / 2], 2), ([3 / 4], 2), ([1], 2)], []]"
    by (simp add: first_call_none second_call_none dispatched_def)
  ultimately show ?thesis using st3_constructed by simp
qed

theorem C2_batch_filling_cost_bounds_witness:
  "fidelity_costs st3_after_all = [4, 2, 1] \<and> cost_budget st3_after_all = 4
   \<and> optim_loop_mfLiveBatch st3_after_all round1
       = Some (Inr (st3_loop_end \<lparr> current_time := 2 \<rparr>, [([1], 2), ([0], 0)]))
   \<and> 4 \<le> batch_costs st3_after_all + batch_cost [4, 2, 1] [([1], 2), ([0], 0)]
   \<and> batch_costs st3_after_all + batch_cost [4, 2, 1] [([1], 2), ([0], 0)] \<le> 7
   \<and> fidelity_costs st3 = [4, 2, 1] \<and> cost_budget st3 = 4
   \<and> nat (4 - batch_costs st3) \<le> length (oracles round0_all)
   \<and> optim_loop_mfLiveBatch st3 round0_all \<noteq> None"
proof -
  have h: "fidelity_costs st3_after_all = [4, 2, 1]" "cost_budget st3_after_all = 4"
    by (simp_all add: st3_defs)
  have r: "optim_loop_mfLiveBatch st3_after_all round1
       = Some (Inr (st3_loop_end \<lparr> current_time := 2 \<rparr>, [([1], 2), ([0], 0)]))"
    using second_call_all by (simp add: optim_loop_def)
  from C2_batch_filling_cost_bounds [OF h, of round1] r
  have b: "4 \<le> batch_costs st3_after_all + batch_cost [4, 2, 1] [([1], 2), ([0], 0)]"
    "batch_costs st3_after_all + batch_cost [4, 2, 1] [([1], 2), ([0], 0)] \<le> 7"
    by auto
  have h0: "fidelity_costs st3 = [4, 2, 1]" "cost_budget st3 = 4"
    "nat (4 - batch_costs st3) \<le> length (oracles round0_all)"
    by (simp_all add: st3_def round0_all_def)
  from C2_batch_filling_cost_bounds [OF h0(1,2), of round0_all] h0(3)
  have "optim_loop_mfLiveBatch st3 round0_all \<noteq> None" by blast
  with h r b h0 show ?thesis by simp
qed

section \<open>A run of the synchronous controller\<close>

text \<open>
  \<^verbatim>\<open>mfUCBPlus\<close> on the environment with costs \<^verbatim>\<open>[4, 2, 1]\<close>, built with \<^verbatim>\<open>beta = 2\<close>. The first
  call submits the uniform point and three fillers at fidelity 2. In the second call the
  optimiser proposes the point 0, where fidelity 2 is certain and the prior of fidelity 1
  (0.6) exceeds its threshold 0.1, so the primary query goes to fidelity 1, at cost 2, and
  one filler follows at the same fidelity.
\<close>

lemmas plus3_defs = plus3_after_def plus3_def st3_def

lemma plus3_constructed:
  "init_controller MfUCBPlus env3 (Some 2) None 10 4 b0 True False = Inr (plus3 b0)"
  by (simp add: init_controller_def init_cost_thresholds_def cost_ratio_def env3_def plus3_defs
        idx_defs Let_def upt_rec numeral_3_eq_3)

lemma sync_first_call:
  "optim_loop MfUCBPlus (plus3 b0) sync_round0
     = Some (Inr (plus3_after b0, [([1 / 4], 2), ([1 / 2], 2), ([3 / 4], 2), ([1], 2)]))"
  by (simp add: sync_round0_def optim_loop_def optim_loop_sync_def update_beta_def fill_sync_def
        after_step_def refresh_raises_def update_model_raises_def bias_update_set_def
        cold_oracle_def plus3_defs gp3_def idx_defs optimise_af_def ingest_defs
        upt_0_3 upt_0_2 del: upt_Suc)

lemma sync_second_build_af:
  "\<exists>a. build_af_mfUCBPlus gp3 (plus3_after b0) [[0]] = Inr [a]"
  apply (simp add: build_af_mfUCBPlus_def plus3_defs upt_0_3 del: upt_Suc)
  apply (simp add: row_defs gp3_def idx_defs min_rows_def)
  done

lemma sync_second_pick:
  "pick_fidelity False gp3 (plus3_after b0) [0]
     = Inr (([0], 1), plus3_after b0\<lparr>fidelity_count_list := [0, 1, 0]\<rparr>)"
  by (simp add: pick_defs plus3_defs gp3_def idx_defs walk_down_2 Let_def)

lemma sync_second_optimise_af:
  "optimise_af MfUCBPlus gp3 (plus3_after b0)
       \<lparr> uniform_point = [1 / 3], candidates = [[0]], optimised = [0] \<rparr>
     = Inr (([0], 1), plus3_after b0\<lparr>fidelity_count_list := [0, 1, 0]\<rparr>)"
proof -
  have 1: "current_time (plus3_after b0) = 1" "\<not> grid_search (plus3_after b0)"
    "\<not> increasing_thresholds (plus3_after b0)"
    by (simp_all add: plus3_defs)
  obtain a where 2: "build_af_mfUCBPlus gp3 (plus3_after b0) [[0]] = Inr [a]"
    using sync_second_build_af by blast
  show ?thesis
    by (simp add: optimise_af_def build_af_of_def 1 2 argmax_def sync_second_pick)
qed

lemma sync_second_fill:
  "fill_sync MfUCBPlus gp3 (plus3_after b0)
       \<lparr> uniform_point = [1 / 3], candidates = [[0]], optimised = [0] \<rparr> [[1 / 5]]
     = Some (Inr (plus3_after b0\<lparr>fidelity_count_list := [0, 1, 0], batch_costs := 4,
                                  query_being_evaluated := True\<rparr>,
                  [([0], 1), ([1 / 5], 1)]))"
proof -
  have 1: "\<not> query_being_evaluated (plus3_after b0)" "dim_x (plus3_after b0) = 1"
    "fidelity_costs (plus3_after b0) = [4, 2, 1]" "cost_budget (plus3_after b0) = 4"
    "batch_costs (plus3_after b0) = 0"
    by (simp_all add: plus3_defs)
  show ?thesis
    by (simp add: fill_sync_def sync_second_optimise_af 1 idx_defs)
qed

lemma sync_second_call_none:
  "optim_loop MfUCBPlus (plus3_after b0) (sync_round1 None)
     = Some (Inr (plus3_after b0\<lparr>fidelity_count_list := [0, 1, 0], batch_costs := 4,
                                  query_being_evaluated := True, current_time := 2\<rparr>,
                  [([0], 1), ([1 / 5], 1)]))"
proof -
  have 1: "update_beta MfUCBPlus (plus3_after b0) = Inr (plus3_after b0)"
    by (simp add: update_beta_def plus3_defs)
  have 2: "refresh_raises MfUCBPlus (plus3_after b0\<lparr>fidelity_count_list := [0, 1, 0],
              batch_costs := 4, query_being_evaluated := True\<rparr>) = None"
    by (simp add: refresh_raises_def plus3_defs in_range_def)
  have 3: "current_time (plus3_after b0) = 1" by (simp add: plus3_defs)
  show ?thesis
    by (simp add: optim_loop_def optim_loop_sync_def sync_round1_def 1 sync_second_fill
          after_step_def 2 3)
qed

lemma sync_second_call_obs:
  "optim_loop MfUCBPlus (plus3_after b0) (sync_round1 (Some [([0], 1, y)]))
     = Some (Inr (plus3_after b0\<lparr>fidelity_count_list := [0, 1, 0],
                     bias_constant := (if b0 < y then 12 / 10 * y else b0),
                     max_value := [0, max 0 y, 1],
                     X_obs := [[], [[0]], [[1 / 4], [1 / 2], [3 / 4], [1]]],
                     Y_obs := [[], [y], [1, 1, 1, 1]], T_obs := [[], [2], [1, 1, 1, 1]],
                     batch_costs := 2, current_time := 2\<rparr>,
                  [([0], 1), ([1 / 5], 1)]))"
proof -
  have 1: "update_beta MfUCBPlus (plus3_after b0) = Inr (plus3_after b0)"
    by (simp add: update_beta_def plus3_defs)
  show ?thesis
    apply (simp add: optim_loop_def optim_loop_sync_def sync_round1_def 1 sync_second_fill)
    apply (simp add: after_step_def refresh_raises_def update_model_raises_def
        bias_update_set_def plus3_defs gp3_def idx_defs ingest_defs upt_0_3 upt_0_2
        del: upt_Suc)
    done
qed

section \<open>Ingestion: the bias bound and the maximum values\<close>

lemma append_obs_frame:
  "append_obs st ob = Inr st' \<Longrightarrow> \<exists>xs ys ts. st' = st\<lparr>X_obs := xs, Y_obs := ys, T_obs := ts\<rparr>"
  apply (rule exI[of _ "X_obs st'"], rule exI[of _ "Y_obs st'"], rule exI[of _ "T_obs st'"])
  apply (auto simp: append_obs_def split: if_splits prod.splits)
  done

lemma add_bias_samples_frame:
  "add_bias_samples gp x y fids st = Inr st' \<Longrightarrow> \<exists>bx by. st' = st\<lparr>bias_X := bx, bias_Y := by\<rparr>"
proof (induction fids arbitrary: st)
  case Nil
  then show ?case
    by (intro exI[of _ "bias_X st"] exI[of _ "bias_Y st"]) simp
next
  case (Cons f fids)
  from Cons.prems obtain bx0 by0 where
    "add_bias_samples gp x y fids (st\<lparr>bias_X := bx0, bias_Y := by0\<rparr>) = Inr st'"
    by (auto split: if_splits)
  from Cons.IH[OF this] show ?case by auto
qed

lemma update_max_value_frame:
  "update_max_value st ob = Inr st' \<Longrightarrow> \<exists>mv. st' = st\<lparr>max_value := mv\<rparr>"
  apply (rule exI[of _ "max_value st'"])
  apply (auto simp: update_max_value_def split: if_splits prod.splits)
  done

lemma release_cost_frame:
  "release_cost st ob = Inr st' \<Longrightarrow> \<exists>bc. st' = st\<lparr>batch_costs := bc\<rparr>"
  apply (rule exI[of _ "batch_costs st'"])
  apply (auto simp: release_cost_def split: if_splits prod.splits sum.splits)
  done

lemma check_bias_value:
  "check_bias gated gp st ob = Inr st' \<Longrightarrow>
     st' = st\<lparr>bias_constant :=
              (if observed_gap gp st ob > bias_constant st \<and> (if gated then update_max_bias st else True)
               then 12 / 10 * observed_gap gp st ob else bias_constant st)\<rparr>"
  by (auto simp: check_bias_def observed_gap_def Let_def split: if_splits prod.splits)

lemma bias_step_value:
  assumes "bias_step v gp st ob = Inr st'"
  shows "\<exists>bx by. st' = st\<lparr>bias_constant :=
              (if fst (snd ob) \<noteq> int (num_of_fidelities st) - 1 \<and> observed_gap gp st ob > bias_constant st
                  \<and> (if v = MfUCBPlus then True else update_max_bias st)
               then 12 / 10 * observed_gap gp st ob else bias_constant st), bias_X := bx, bias_Y := by\<rparr>"
proof -
  obtain x fid y where ob: "ob = (x, fid, y)" by (cases ob)
  show ?thesis
  proof (cases "fid = int (num_of_fidelities st) - 1")
    case True
    with assms ob have "st' = st" by (simp add: bias_step_def)
    then show ?thesis using True ob
      by (intro exI[of _ "bias_X st"] exI[of _ "bias_Y st"]) simp
  next
    case False
    with assms ob obtain st1 where
      c: "check_bias (v \<noteq> MfUCBPlus) gp st ob = Inr st1"
      and r: "(if fid = 0 \<and> v \<noteq> MfUCB then add_bias_samples gp x y [1..<num_of_fidelities st] st1 else Inr st1) = Inr st'"
      by (auto simp: bias_step_def split: sum.splits)
    note v = check_bias_value[OF c]
    have "\<exists>bx by. st' = st1\<lparr>bias_X := bx, bias_Y := by\<rparr>"
    proof (cases "fid = 0 \<and> v \<noteq> MfUCB")
      case True
      with r show ?thesis by (auto dest: add_bias_samples_frame)
    next
      case False
      with r have "st' = st1" by auto
      then show ?thesis by (intro exI[of _ "bias_X st1"] exI[of _ "bias_Y st1"]) simp
    qed
    then obtain bx "by" where "st' = st1\<lparr>bias_X := bx, bias_Y := by\<rparr>" by blast
    with v False ob show ?thesis
      by (intro exI[of _ bx] exI[of _ "by"]) (cases "v = MfUCBPlus"; simp)
  qed
qed

lemma ingest_one_bias_constant:
  assumes "ingest_one v gp st ob = Inr st'"
  shows "bias_constant st' =
           (if fst (snd ob) \<noteq> int (num_of_fidelities st) - 1 \<and> observed_gap gp st ob > bias_constant st
                  \<and> (if v = MfUCBPlus then True else update_max_bias st)
            then 12 / 10 * observed_gap gp st ob else bias_constant st)
         \<and> update_max_bias st' = update_max_bias st
         \<and> num_of_fidelities st' = num_of_fidelities st"
proof -
  from assms obtain st1 st2 st3 st4 where
    a: "append_obs st ob = Inr st1" and b: "bias_step v gp st1 ob = Inr st2"
    and m: "(if v = MfUCB then Inr st2 else update_max_value st2 ob) = Inr st3"
    and c: "release_cost st3 ob = Inr st4"
    and e: "st' = (if v = MfUCBPlus then st4\<lparr>query_being_evaluated := False\<rparr> else st4)"
    by (auto simp: ingest_one_def split: sum.splits)
  from append_obs_frame[OF a] obtain xs ys ts where
    st1: "st1 = st\<lparr>X_obs := xs, Y_obs := ys, T_obs := ts\<rparr>" by blast
  have g: "observed_gap gp st1 ob = observed_gap gp st ob" by (simp add: observed_gap_def st1)
  from bias_step_value[OF b] obtain bx "by" where
    st2: "st2 = st1\<lparr>bias_constant :=
              (if fst (snd ob) \<noteq> int (num_of_fidelities st1) - 1 \<and> observed_gap gp st1 ob > bias_constant st1
                  \<and> (if v = MfUCBPlus then True else update_max_bias st1)
               then 12 / 10 * observed_gap gp st1 ob else bias_constant st1), bias_X := bx, bias_Y := by\<rparr>"
    by blast
  have "\<exists>mv. st3 = st2\<lparr>max_value := mv\<rparr>"
  proof (cases "v = MfUCB")
    case True
    with m show ?thesis by (intro exI[of _ "max_value st2"]) simp
  next
    case False
    with m show ?thesis by (auto dest: update_max_value_frame)
  qed
  then obtain mv where st3: "st3 = st2\<lparr>max_value := mv\<rparr>" by blast
  from release_cost_frame[OF c] obtain bc where st4: "st4 = st3\<lparr>batch_costs := bc\<rparr>" by blast
  show ?thesis
    by (simp add: e st4 st3 st2 g) (simp add: st1)
qed

text \<open>What filling a batch leaves alone.\<close>

lemma fill_batch_frame:
  "fill_batch gp st orcs = Some (Inr (st', qs)) \<Longrightarrow>
     st' = st\<lparr>fidelity_thresholds := fidelity_thresholds st',
              fidelity_count_list := fidelity_count_list st',
              current_batch := current_batch st', current_batch_fids := current_batch_fids st',
              batch_costs := batch_costs st', lipschitz_batch_list := lipschitz_batch_list st'\<rparr>"
proof (induction orcs arbitrary: st qs)
  case Nil
  then show ?case by (auto split: if_splits)
next
  case (Cons orc rest)
  show ?case
  proof (cases "batch_costs st < cost_budget st")
    case False
    with Cons.prems show ?thesis by auto
  next
    case True
    with Cons.prems obtain new_X new_M st1 c st2 qs' where
      o: "optimise_af MfLiveBatch gp st orc = Inr ((new_X, new_M), st1)"
      and a: "append_lipschitz gp (st1\<lparr>current_batch := current_batch st1 @ [new_X],
                                  current_batch_fids := current_batch_fids st1 @ [new_M],
                                  batch_costs := batch_costs st1 + c\<rparr>) new_X new_M = Inr st2"
      and r: "fill_batch gp st2 rest = Some (Inr (st', qs'))"
      by (auto split: sum.splits if_splits option.splits prod.splits)
    from optimise_af_frame[OF o] obtain ths cl where
      st1: "st1 = st\<lparr>fidelity_thresholds := ths, fidelity_count_list := cl\<rparr>" by blast
    from append_lipschitz_frame[OF a] obtain l where
      st2: "st2 = st1\<lparr>current_batch := current_batch st1 @ [new_X],
                                  current_batch_fids := current_batch_fids st1 @ [new_M],
                                  batch_costs := batch_costs st1 + c, lipschitz_batch_list := l\<rparr>" by blast
    from Cons.IH[OF r] show ?thesis
      by (simp add: st2 st1)
  qed
qed


lemma fill_sync_frame:
  "fill_sync v gp st orc ds = Some (Inr (st', qs)) \<Longrightarrow>
     st' = st\<lparr>fidelity_thresholds := fidelity_thresholds st',
              fidelity_count_list := fidelity_count_list st',
              batch_costs := batch_costs st',
              query_being_evaluated := query_being_evaluated st'\<rparr>"
proof (cases "query_being_evaluated st")
  case True
  assume "fill_sync v gp st orc ds = Some (Inr (st', qs))"
  with True show ?thesis by (simp add: fill_sync_def)
next
  case False
  assume "fill_sync v gp st orc ds = Some (Inr (st', qs))"
  with False obtain new_X new_M st1 bc where
    o: "optimise_af v gp st orc = Inr ((new_X, new_M), st1)"
    and st': "st' = st1\<lparr>batch_costs := bc, query_being_evaluated := True\<rparr>"
    by (auto simp: fill_sync_def split: sum.splits if_splits option.splits prod.splits)
  from optimise_af_frame[OF o] obtain ths cl where
    st1: "st1 = st\<lparr>fidelity_thresholds := ths, fidelity_count_list := cl\<rparr>" by blast
  show ?thesis by (simp add: st' st1)
qed

text \<open>The bias bound along the observations of one call.\<close>

lemma ingest_one_bias_mono:
  assumes "ingest_one v gp st ob = Inr st'" "0 \<le> bias_constant st"
  shows "bias_constant st \<le> bias_constant st'"
  using ingest_one_bias_constant[OF assms(1)] assms(2)
  by (auto split: if_splits)

lemma ingest_bias_mono:
  assumes "ingest v gp st obs = Inr st'" "0 \<le> bias_constant st"
  shows "bias_constant st \<le> bias_constant st'"
  using assms
proof (induction obs arbitrary: st)
  case Nil
  then show ?case by simp
next
  case (Cons ob obs)
  from Cons.prems(1) obtain st1 where
    1: "ingest_one v gp st ob = Inr st1" and 2: "ingest v gp st1 obs = Inr st'"
    by (auto split: sum.splits)
  from ingest_one_bias_mono[OF 1 Cons.prems(2)] Cons.IH[OF 2] Cons.prems(2)
  show ?case by simp
qed

lemma after_step_bias:
  assumes "after_step v gp st sr = Inr st'" "0 \<le> bias_constant st"
  shows "bias_constant st \<le> bias_constant st' \<and> (sr = None \<longrightarrow> bias_constant st' = bias_constant st)"
proof (cases sr)
  case None
  with assms show ?thesis
    by (auto simp: after_step_def split: option.splits)
next
  case (Some obs)
  with assms(1) obtain st1 where i: "ingest v gp st obs = Inr st1"
    and "bias_constant st' = bias_constant st1"
    by (auto simp: after_step_def split: option.splits sum.splits if_splits)
  with ingest_bias_mono[OF i assms(2)] Some show ?thesis by simp
qed

lemma optim_loop_after_step:
  assumes "optim_loop v st inp = Some (Inr (st', qs))"
  shows "\<exists>st2. after_step v (belief inp) st2 (step_result inp) = Inr st'
           \<and> bias_constant st2 = bias_constant st \<and> max_value st2 = max_value st
           \<and> Y_obs st2 = Y_obs st \<and> num_of_fidelities st2 = num_of_fidelities st"
proof (cases "v = MfLiveBatch")
  case True
  with assms obtain st1 lips st2 where
    b: "update_beta MfLiveBatch st = Inr st1"
    and f: "fill_batch (belief inp)
                       (st1\<lparr>lipschitz_batch_list := lips, current_batch := query_list inp,
                            current_batch_fids := fidelities_list inp\<rparr>) (oracles inp)
              = Some (Inr (st2, qs))"
    and a: "after_step MfLiveBatch (belief inp) st2 (step_result inp) = Inr st'"
    by (auto simp: optim_loop_def optim_loop_mfLiveBatch_def split: sum.splits option.splits)
  from update_beta_frame[OF b] obtain bt where st1: "st1 = st\<lparr>beta := bt\<rparr>" by blast
  note fr = fill_batch_frame[OF f]
  have "bias_constant st2 = bias_constant st" "max_value st2 = max_value st" "Y_obs st2 = Y_obs st"
    "num_of_fidelities st2 = num_of_fidelities st"
    by (subst fr, simp add: st1)+
  with a True show ?thesis by blast
next
  case False
  with assms obtain st1 orc st2 where
    b: "update_beta v st = Inr st1"
    and f: "fill_sync v (belief inp) st1 orc (draws inp) = Some (Inr (st2, qs))"
    and a: "after_step v (belief inp) st2 (step_result inp) = Inr st'"
    by (auto simp: optim_loop_def optim_loop_sync_def split: sum.splits option.splits list.splits)
  from update_beta_frame[OF b] obtain bt where st1: "st1 = st\<lparr>beta := bt\<rparr>" by blast
  note fr = fill_sync_frame[OF f]
  have "bias_constant st2 = bias_constant st" "max_value st2 = max_value st" "Y_obs st2 = Y_obs st"
    "num_of_fidelities st2 = num_of_fidelities st"
    by (subst fr, simp add: st1)+
  with a show ?thesis by blast
qed

lemma optim_loop_bias:
  assumes "optim_loop v st inp = Some (Inr (st', qs))" "0 \<le> bias_constant st"
  shows "bias_constant st \<le> bias_constant st'
       \<and> (step_result inp = None \<longrightarrow> bias_constant st' = bias_constant st)"
proof -
  from optim_loop_after_step[OF assms(1)] obtain st2 where
    a: "after_step v (belief inp) st2 (step_result inp) = Inr st'"
    and b: "bias_constant st2 = bias_constant st" by blast
  from after_step_bias[OF a] assms(2) b show ?thesis by simp
qed

lemma optim_loops_bias:
  assumes "optim_loops v st inps = Some (Inr (st', bs))" "0 \<le> bias_constant st"
  shows "bias_constant st \<le> bias_constant st'"
  using assms
proof (induction inps arbitrary: st bs)
  case Nil
  then show ?case by simp
next
  case (Cons inp inps)
  from Cons.prems(1) obtain st1 qs bs' where
    1: "optim_loop v st inp = Some (Inr (st1, qs))"
    and 2: "optim_loops v st1 inps = Some (Inr (st', bs'))"
    by (auto split: option.splits sum.splits prod.splits)
  from optim_loop_bias[OF 1 Cons.prems(2)] Cons.IH[OF 2] Cons.prems(2)
  show ?case by simp
qed

text \<open>The recorded maxima follow the observations.\<close>

lemma max_of_zero_and_Nil: "max_of_zero_and [] = 0"
  by (simp add: max_of_zero_and_def)

lemma max_of_zero_and_snoc: "max_of_zero_and (ys @ [y]) = max (max_of_zero_and ys) y"
proof -
  have "Max (insert y (insert 0 (set ys))) = max y (Max (insert 0 (set ys)))"
    by (rule Max_insert) auto
  then show ?thesis by (simp add: max_of_zero_and_def insert_commute max.commute)
qed

lemma max_of_zero_and_ge: "0 \<le> max_of_zero_and ys" "y \<in> set ys \<Longrightarrow> y \<le> max_of_zero_and ys"
  by (simp_all add: max_of_zero_and_def)

lemma append_obs_Y:
  assumes "append_obs st (x, fid, y) = Inr st'"
  shows "in_range (length (Y_obs st)) fid"
    and "Y_obs st' = (Y_obs st)[wrap (length (Y_obs st)) fid :=
                                     Y_obs st ! wrap (length (Y_obs st)) fid @ [y]]"
    and "max_value st' = max_value st"
  using assms by (auto simp: append_obs_def split: if_splits)

lemma update_max_value_val:
  assumes "update_max_value st (x, fid, y) = Inr st'"
  shows "in_range (length (max_value st)) fid"
    and "max_value st' = (max_value st)[wrap (length (max_value st)) fid :=
                        max (max_value st ! wrap (length (max_value st)) fid) y]"
    and "Y_obs st' = Y_obs st"
  using assms by (auto simp: update_max_value_def split: if_splits)

lemma ingest_one_max_value:
  assumes i: "ingest_one v gp st ob = Inr st'" and v: "v \<noteq> MfUCB"
    and r: "max_value_recorded st"
  shows "max_value_recorded st' \<and> length (Y_obs st') = length (Y_obs st)
       \<and> (\<forall>f<length (max_value st). max_value st ! f \<le> max_value st' ! f)"
proof -
  obtain x fid y where ob: "ob = (x, fid, y)" by (cases ob)
  from i v ob obtain st1 st2 st3 st4 where
    a: "append_obs st (x, fid, y) = Inr st1"
    and b: "bias_step v gp st1 ob = Inr st2"
    and m: "update_max_value st2 (x, fid, y) = Inr st3"
    and c: "release_cost st3 ob = Inr st4"
    and e: "st' = (if v = MfUCBPlus then st4\<lparr>query_being_evaluated := False\<rparr> else st4)"
    by (auto simp: ingest_one_def split: sum.splits)
  from bias_step_value[OF b] obtain bc bx "by" where
    st2: "st2 = st1\<lparr>bias_constant := bc, bias_X := bx, bias_Y := by\<rparr>" by blast
  from release_cost_frame[OF c] obtain k where st4: "st4 = st3\<lparr>batch_costs := k\<rparr>" by blast
  let ?Y = "Y_obs st" and ?w = "wrap (length (Y_obs st)) fid"
  from r have mv: "max_value st = map max_of_zero_and ?Y" by (simp add: max_value_recorded_def)
  have Y2: "Y_obs st2 = ?Y[?w := ?Y ! ?w @ [y]]" and M2: "max_value st2 = max_value st"
    using append_obs_Y(2,3)[OF a] by (simp_all add: st2)
  have rng: "in_range (length ?Y) fid" by (rule append_obs_Y(1)[OF a])
  then have w: "?w < length ?Y" by (auto simp: in_range_def wrap_def)
  have M3: "max_value st3 = (map max_of_zero_and ?Y)[?w := max (max_of_zero_and (?Y ! ?w)) y]"
    using update_max_value_val(2)[OF m] w by (simp add: M2 mv)
  have Y3: "Y_obs st3 = ?Y[?w := ?Y ! ?w @ [y]]"
    using update_max_value_val(3)[OF m] Y2 by simp
  have M': "max_value st' = max_value st3" and Y': "Y_obs st' = Y_obs st3"
    by (simp_all add: e st4)
  have "max_value st' = map max_of_zero_and (Y_obs st')"
    by (simp add: M' Y' M3 Y3 map_update max_of_zero_and_snoc)
  moreover have "\<forall>f<length (max_value st). max_value st ! f \<le> max_value st' ! f"
  proof (intro allI impI)
    fix f assume "f < length (max_value st)"
    then have f: "f < length ?Y" by (simp add: mv)
    show "max_value st ! f \<le> max_value st' ! f"
    proof (cases "f = ?w")
      case True
      with f show ?thesis by (simp add: M' M3 mv)
    next
      case False
      with f show ?thesis by (simp add: M' M3 mv)
    qed
  qed
  ultimately show ?thesis by (simp add: max_value_recorded_def Y' Y3)
qed

lemma ingest_max_value:
  assumes "ingest v gp st obs = Inr st'" "v \<noteq> MfUCB" "max_value_recorded st"
  shows "max_value_recorded st' \<and> length (Y_obs st') = length (Y_obs st)
       \<and> (\<forall>f<length (max_value st). max_value st ! f \<le> max_value st' ! f)"
  using assms
proof (induction obs arbitrary: st)
  case Nil
  then show ?case by simp
next
  case (Cons ob obs)
  from Cons.prems(1) obtain st1 where
    1: "ingest_one v gp st ob = Inr st1" and 2: "ingest v gp st1 obs = Inr st'"
    by (auto split: sum.splits)
  note a = ingest_one_max_value[OF 1 Cons.prems(2,3)]
  then have r1: "max_value_recorded st1" by simp
  note b = Cons.IH[OF 2 Cons.prems(2) r1]
  from a Cons.prems(3) have l: "length (max_value st1) = length (max_value st)"
    by (simp add: max_value_recorded_def)
  show ?case
  proof (intro conjI allI impI)
    show "max_value_recorded st'" using b by simp
    show "length (Y_obs st') = length (Y_obs st)" using a b by simp
    fix f assume f: "f < length (max_value st)"
    with a have "max_value st ! f \<le> max_value st1 ! f" by simp
    also from b f l have "\<dots> \<le> max_value st' ! f" by simp
    finally show "max_value st ! f \<le> max_value st' ! f" .
  qed
qed

lemma after_step_max_value:
  assumes "after_step v gp st sr = Inr st'" "v \<noteq> MfUCB" "max_value_recorded st"
  shows "max_value_recorded st' \<and> length (Y_obs st') = length (Y_obs st)
       \<and> (\<forall>f<length (max_value st). max_value st ! f \<le> max_value st' ! f)"
proof (cases sr)
  case None
  with assms show ?thesis
    by (auto simp: after_step_def max_value_recorded_def split: option.splits)
next
  case (Some obs)
  with assms(1,2) obtain st1 where i: "ingest v gp st obs = Inr st1"
    and e: "max_value st' = max_value st1" "Y_obs st' = Y_obs st1"
    by (auto simp: after_step_def split: option.splits sum.splits if_splits)
  note a = ingest_max_value[OF i assms(2,3)]
  from a e have "max_value_recorded st'" by (simp add: max_value_recorded_def)
  moreover from a e have "length (Y_obs st') = length (Y_obs st)" by simp
  moreover from a have "\<forall>f<length (max_value st). max_value st ! f \<le> max_value st' ! f"
    unfolding e by blast
  ultimately show ?thesis by blast
qed

lemma optim_loop_max_value:
  assumes "optim_loop v st inp = Some (Inr (st', qs))" "v \<noteq> MfUCB" "max_value_recorded st"
  shows "max_value_recorded st' \<and> length (Y_obs st') = length (Y_obs st)
       \<and> (\<forall>f<length (max_value st). max_value st ! f \<le> max_value st' ! f)"
proof -
  from optim_loop_after_step[OF assms(1)] obtain st2 where
    a: "after_step v (belief inp) st2 (step_result inp) = Inr st'"
    and b: "max_value st2 = max_value st" "Y_obs st2 = Y_obs st" by blast
  from assms(3) b have "max_value_recorded st2" by (simp add: max_value_recorded_def)
  from after_step_max_value[OF a assms(2) this] b show ?thesis by simp
qed

lemma optim_loops_max_value:
  assumes "optim_loops v st inps = Some (Inr (st', bs))" "v \<noteq> MfUCB" "max_value_recorded st"
  shows "max_value_recorded st' \<and> length (Y_obs st') = length (Y_obs st)
       \<and> (\<forall>f<length (max_value st). max_value st ! f \<le> max_value st' ! f)"
  using assms
proof (induction inps arbitrary: st bs)
  case Nil
  then show ?case by simp
next
  case (Cons inp inps)
  from Cons.prems(1) obtain st1 qs bs' where
    1: "optim_loop v st inp = Some (Inr (st1, qs))"
    and 2: "optim_loops v st1 inps = Some (Inr (st', bs'))"
    by (auto split: option.splits sum.splits prod.splits)
  note a = optim_loop_max_value[OF 1 Cons.prems(2,3)]
  then have r1: "max_value_recorded st1" by simp
  note b = Cons.IH[OF 2 Cons.prems(2) r1]
  from a Cons.prems(3) have l: "length (max_value st1) = length (max_value st)"
    by (simp add: max_value_recorded_def)
  show ?case
  proof (intro conjI allI impI)
    show "max_value_recorded st'" using b by simp
    show "length (Y_obs st') = length (Y_obs st)" using a b by simp
    fix f assume f: "f < length (max_value st)"
    with a have "max_value st ! f \<le> max_value st1 ! f" by simp
    also from b f l have "\<dots> \<le> max_value st' ! f" by simp
    finally show "max_value st ! f \<le> max_value st' ! f" .
  qed
qed

lemma init_controller_max_value:
  "init_controller v env bt ths b cb ib ll it = Inr st \<Longrightarrow> max_value_recorded st"
  by (auto simp: init_controller_def max_value_recorded_def max_of_zero_and_Nil Let_def
           split: if_splits option.splits sum.splits)

text \<open>Where a change of the bias bound comes from.\<close>

lemma observed_gap_cong:
  "num_of_fidelities st1 = num_of_fidelities st \<Longrightarrow> observed_gap gp st1 ob = observed_gap gp st ob"
  by (simp add: observed_gap_def)

lemma ingest_bias_source:
  assumes "ingest v gp st obs = Inr st'" "0 \<le> bias_constant st"
  shows "num_of_fidelities st' = num_of_fidelities st \<and>
         (bias_constant st' = bias_constant st \<or>
          (\<exists>ob\<in>set obs. fst (snd ob) \<noteq> int (num_of_fidelities st) - 1
               \<and> bias_constant st < observed_gap gp st ob
               \<and> bias_constant st' = 12 / 10 * observed_gap gp st ob))"
  using assms
proof (induction obs arbitrary: st)
  case Nil
  then show ?case by simp
next
  case (Cons ob obs)
  from Cons.prems(1) obtain st1 where
    1: "ingest_one v gp st ob = Inr st1" and 2: "ingest v gp st1 obs = Inr st'"
    by (auto split: sum.splits)
  note a = ingest_one_bias_constant[OF 1]
  then have n: "num_of_fidelities st1 = num_of_fidelities st" by simp
  have m: "bias_constant st \<le> bias_constant st1"
    by (rule ingest_one_bias_mono[OF 1 Cons.prems(2)])
  with Cons.prems(2) have p: "0 \<le> bias_constant st1" by simp
  note b = Cons.IH[OF 2 p]
  have g: "\<And>ob'. observed_gap gp st1 ob' = observed_gap gp st ob'"
    by (rule observed_gap_cong[OF n])
  from b have "bias_constant st' = bias_constant st1 \<or>
          (\<exists>ob'\<in>set obs. fst (snd ob') \<noteq> int (num_of_fidelities st) - 1
               \<and> bias_constant st1 < observed_gap gp st ob'
               \<and> bias_constant st' = 12 / 10 * observed_gap gp st ob')"
    by (simp add: g n)
  then have "bias_constant st' = bias_constant st \<or>
          (\<exists>ob'\<in>set (ob # obs). fst (snd ob') \<noteq> int (num_of_fidelities st) - 1
               \<and> bias_constant st < observed_gap gp st ob'
               \<and> bias_constant st' = 12 / 10 * observed_gap gp st ob')"
  proof
    assume e: "bias_constant st' = bias_constant st1"
    show ?thesis
    proof (cases "bias_constant st1 = bias_constant st")
      case True
      with e show ?thesis by simp
    next
      case False
      with a have "fst (snd ob) \<noteq> int (num_of_fidelities st) - 1
               \<and> bias_constant st < observed_gap gp st ob
               \<and> bias_constant st1 = 12 / 10 * observed_gap gp st ob"
        by (auto split: if_splits)
      with e show ?thesis by simp
    qed
  next
    assume "\<exists>ob'\<in>set obs. fst (snd ob') \<noteq> int (num_of_fidelities st) - 1
               \<and> bias_constant st1 < observed_gap gp st ob'
               \<and> bias_constant st' = 12 / 10 * observed_gap gp st ob'"
    then obtain ob' where "ob' \<in> set obs" "fst (snd ob') \<noteq> int (num_of_fidelities st) - 1"
      "bias_constant st1 < observed_gap gp st ob'"
      "bias_constant st' = 12 / 10 * observed_gap gp st ob'" by blast
    with m show ?thesis by (intro disjI2 bexI[of _ ob']) auto
  qed
  with b n show ?case by simp
qed

lemma after_step_bias_source:
  assumes "after_step v gp st sr = Inr st'" "0 \<le> bias_constant st"
    "bias_constant st' \<noteq> bias_constant st"
  shows "\<exists>obs ob. sr = Some obs \<and> ob \<in> set obs
            \<and> fst (snd ob) \<noteq> int (num_of_fidelities st) - 1
            \<and> bias_constant st < observed_gap gp st ob
            \<and> bias_constant st' = 12 / 10 * observed_gap gp st ob"
proof (cases sr)
  case None
  with assms show ?thesis
    by (auto simp: after_step_def split: option.splits)
next
  case (Some obs)
  with assms(1) obtain st1 where i: "ingest v gp st obs = Inr st1"
    and e: "bias_constant st' = bias_constant st1"
    by (auto simp: after_step_def split: option.splits sum.splits if_splits)
  from ingest_bias_source[OF i assms(2)] assms(3) e obtain ob where
    "ob \<in> set obs" "fst (snd ob) \<noteq> int (num_of_fidelities st) - 1"
    "bias_constant st < observed_gap gp st ob"
    "bias_constant st1 = 12 / 10 * observed_gap gp st ob" by metis
  with Some show ?thesis unfolding e by blast
qed

lemma optim_loop_bias_source:
  assumes "optim_loop v st inp = Some (Inr (st', qs))" "0 \<le> bias_constant st"
    "bias_constant st' \<noteq> bias_constant st"
  shows "\<exists>obs ob. step_result inp = Some obs \<and> ob \<in> set obs
            \<and> fst (snd ob) \<noteq> int (num_of_fidelities st) - 1
            \<and> bias_constant st < observed_gap (belief inp) st ob
            \<and> bias_constant st' = 12 / 10 * observed_gap (belief inp) st ob"
proof -
  from optim_loop_after_step[OF assms(1)] obtain st2 where
    a: "after_step v (belief inp) st2 (step_result inp) = Inr st'"
    and b: "bias_constant st2 = bias_constant st" "num_of_fidelities st2 = num_of_fidelities st"
    by blast
  from after_step_bias_source[OF a] assms(2,3) b observed_gap_cong[OF b(2)]
  show ?thesis by simp
qed

text \<open>
  C4, as the code has it. Ingesting an observation \<open>(x, fid, y)\<close> changes \<^verbatim>\<open>bias_constant\<close>
  exactly when \<open>fid\<close> is not the cheapest fidelity \<^verbatim>\<open>num_of_fidelities - 1\<close> (the target
  fidelity 0 included), the value \<open>y\<close> minus the posterior mean of the model with index
  \<^verbatim>\<open>fid + 1\<close>, the next cheaper fidelity, at \<open>x\<close> exceeds the current bound, and
  \<^verbatim>\<open>update_max_bias\<close> is set (\<^verbatim>\<open>mfUCBPlus\<close> does not ask for it); the new bound is 1.2
  times that difference.
\<close>

theorem C4_bias_check_uses_next_cheaper_model:
  assumes "ingest_one v gp st (x, fid, y) = Inr st'"
  shows "bias_constant st' =
           (if fid \<noteq> int (num_of_fidelities st) - 1
               \<and> bias_constant st < y - fst (posterior gp (wrap (num_of_fidelities st) (fid + 1)) x)
               \<and> (v = MfUCBPlus \<or> update_max_bias st)
            then 12 / 10 * (y - fst (posterior gp (wrap (num_of_fidelities st) (fid + 1)) x))
            else bias_constant st)"
  using ingest_one_bias_constant[OF assms] by (auto simp: observed_gap_def)

text \<open>
  C4, as stated, fails. The controller of three fidelities has the bound 0.1 and
  \<^verbatim>\<open>update_max_bias\<close> set; the posterior mean at 0.5 is 100 at the target fidelity and 0 at
  fidelities 1 and 2. An observation of 100 at fidelity 2, a non-target fidelity, is not
  checked at all, although it is 100 above the mean of fidelity 1. An observation of 10
  at fidelity 1 is 90 below the mean of the next higher fidelity 0, and the bound becomes
  12, which is 1.2 times its distance to the mean of fidelity 2. An observation of 10 at
  the target fidelity 0 raises the bound to 12 as well.
\<close>

theorem C4_cheapest_unchecked_and_bound_replaced_counterexample:
  "num_of_fidelities st3_after_all = 3 \<and> bias_constant st3_after_all = 1 / 10
   \<and> update_max_bias st3_after_all
   \<and> map (\<lambda>i. fst (posterior gp_target_high i [1 / 2])) [0, 1, 2] = [100, 0, 0]
   \<and> map_sum id bias_constant
        (ingest_one MfLiveBatch gp_target_high st3_after_all ([1 / 2], 2, 100)) = Inr (1 / 10)
   \<and> map_sum id bias_constant
        (ingest_one MfLiveBatch gp_target_high st3_after_all ([1 / 2], 1, 10)) = Inr 12
   \<and> map_sum id bias_constant
        (ingest_one MfLiveBatch gp_target_high st3_after_all ([1 / 2], 0, 10)) = Inr 12"
  by (simp add: ingest_defs st3_defs gp_target_high_def gp3_def idx_defs upt_rec)

theorem C4_bias_check_uses_next_cheaper_model_witness:
  "\<exists>st'. ingest_one MfLiveBatch gp_target_high st3_after_all ([1 / 2], 1, 10) = Inr st'
         \<and> bias_constant st' = 12"
proof -
  have "\<exists>st'. ingest_one MfLiveBatch gp_target_high st3_after_all ([1 / 2], 1, 10) = Inr st'"
    by (simp add: ingest_defs st3_defs gp_target_high_def gp3_def idx_defs)
  then obtain st' where
    e: "ingest_one MfLiveBatch gp_target_high st3_after_all ([1 / 2], 1, 10) = Inr st'" ..
  from C4_bias_check_uses_next_cheaper_model[OF e]
  have "bias_constant st' = 12"
    by (simp add: st3_defs gp_target_high_def gp3_def idx_defs)
  with e show ?thesis by blast
qed

text \<open>
  C5, for a bound that is not negative. Over any number of calls of \<^verbatim>\<open>optim_loop\<close>, of
  any of the three classes, \<^verbatim>\<open>bias_constant\<close> does not decrease; and a call changes it only
  when \<^verbatim>\<open>env.step\<close> returned an observation \<open>(x, fid, y)\<close>, not at the cheapest fidelity, whose
  difference to the posterior mean of the model \<^verbatim>\<open>fid + 1\<close> exceeds the bound, and then the
  new bound is 1.2 times such a difference.
\<close>

theorem C5_bias_constant_never_decreases_when_nonnegative:
  assumes "0 \<le> bias_constant st"
  shows "(\<forall>st' bs. optim_loops v st inps = Some (Inr (st', bs))
             \<longrightarrow> bias_constant st \<le> bias_constant st')
       \<and> (\<forall>st' qs. optim_loop v st inp = Some (Inr (st', qs))
             \<longrightarrow> bias_constant st' \<noteq> bias_constant st
             \<longrightarrow> (\<exists>obs x fid y. step_result inp = Some obs \<and> (x, fid, y) \<in> set obs
                    \<and> fid \<noteq> int (num_of_fidelities st) - 1
                    \<and> bias_constant st
                        < y - fst (posterior (belief inp) (wrap (num_of_fidelities st) (fid + 1)) x)
                    \<and> bias_constant st'
                        = 12 / 10 * (y - fst (posterior (belief inp)
                                                 (wrap (num_of_fidelities st) (fid + 1)) x))))"
proof (intro conjI allI impI)
  fix st' bs assume "optim_loops v st inps = Some (Inr (st', bs))"
  from optim_loops_bias[OF this assms] show "bias_constant st \<le> bias_constant st'" .
next
  fix st' qs
  assume r: "optim_loop v st inp = Some (Inr (st', qs))"
    and c: "bias_constant st' \<noteq> bias_constant st"
  from optim_loop_bias_source[OF r assms c] obtain obs ob where
    o: "step_result inp = Some obs" "ob \<in> set obs"
      "fst (snd ob) \<noteq> int (num_of_fidelities st) - 1"
      "bias_constant st < observed_gap (belief inp) st ob"
      "bias_constant st' = 12 / 10 * observed_gap (belief inp) st ob" by blast
  obtain x fid y where ob: "ob = (x, fid, y)" by (cases ob)
  from o show "\<exists>obs x fid y. step_result inp = Some obs \<and> (x, fid, y) \<in> set obs
                    \<and> fid \<noteq> int (num_of_fidelities st) - 1
                    \<and> bias_constant st
                        < y - fst (posterior (belief inp) (wrap (num_of_fidelities st) (fid + 1)) x)
                    \<and> bias_constant st'
                        = 12 / 10 * (y - fst (posterior (belief inp)
                                                 (wrap (num_of_fidelities st) (fid + 1)) x))"
    unfolding ob observed_gap_def by (intro exI[of _ obs] exI[of _ x] exI[of _ fid] exI[of _ y]) simp
qed

text \<open>
  C5, as stated, fails for a negative bound. \<^verbatim>\<open>mfUCBPlus\<close> built with
  \<^verbatim>\<open>initial_bias = -5.5\<close>: the second call observes -5 at fidelity 1, where the posterior
  mean of fidelity 2 is 0; the difference -5 exceeds -5.5 and the bound becomes -6.
\<close>

theorem C5_negative_bound_decreases_counterexample:
  "init_controller MfUCBPlus env3 (Some 2) None 10 4 (- 11 / 2) True False
     = Inr (plus3 (- 11 / 2))
   \<and> bias_constant (plus3 (- 11 / 2)) = - 11 / 2
   \<and> map_option bias_constant (state_after (optim_loops MfUCBPlus (plus3 (- 11 / 2))
         [sync_round0, sync_round1 (Some [([0], 1, - 5)])])) = Some (- 6)"
  by (simp add: plus3_constructed sync_first_call sync_second_call_obs state_after_def)
     (simp add: plus3_def)

theorem C5_bias_constant_never_decreases_when_nonnegative_witness:
  "0 \<le> bias_constant (plus3 0)
   \<and> map_option bias_constant (state_after (optim_loops MfUCBPlus (plus3 0)
         [sync_round0, sync_round1 (Some [([0], 1, 5)])])) = Some 6
   \<and> (\<exists>st'. state_after (optim_loops MfUCBPlus (plus3 0)
                 [sync_round0, sync_round1 (Some [([0], 1, 5)])]) = Some st'
            \<and> bias_constant (plus3 0) \<le> bias_constant st')
   \<and> (\<exists>obs x fid y. step_result (sync_round1 (Some [([0], 1, 5)])) = Some obs
          \<and> (x, fid, y) \<in> set obs \<and> 6 = 12 / 10 * (y - fst (posterior gp3 (nat (fid + 1)) x)))"
proof -
  let ?end = "plus3_after 0\<lparr>fidelity_count_list := [0, 1, 0],
                     bias_constant := 6, max_value := [0, 5, 1],
                     X_obs := [[], [[0]], [[1 / 4], [1 / 2], [3 / 4], [1]]],
                     Y_obs := [[], [5], [1, 1, 1, 1]], T_obs := [[], [2], [1, 1, 1, 1]],
                     batch_costs := 2, current_time := 2\<rparr>"
  have h: "0 \<le> bias_constant (plus3 0)" "0 \<le> bias_constant (plus3_after 0)"
    by (simp_all add: plus3_defs)
  have r: "optim_loops MfUCBPlus (plus3 0) [sync_round0, sync_round1 (Some [([0], 1, 5)])]
     = Some (Inr (?end, [[([1 / 4], 2), ([1 / 2], 2), ([3 / 4], 2), ([1], 2)],
                         [([0], 1), ([1 / 5], 1)]]))"
    by (simp add: sync_first_call sync_second_call_obs)
  have r1: "optim_loop MfUCBPlus (plus3_after 0) (sync_round1 (Some [([0], 1, 5)]))
     = Some (Inr (?end, [([0], 1), ([1 / 5], 1)]))"
    by (simp add: sync_second_call_obs)
  have b: "bias_constant ?end = 6" by simp
  from C5_bias_constant_never_decreases_when_nonnegative[OF h(1)] r
  have 1: "bias_constant (plus3 0) \<le> bias_constant ?end" by blast
  have c: "bias_constant ?end \<noteq> bias_constant (plus3_after 0)" by (simp add: plus3_defs)
  from C5_bias_constant_never_decreases_when_nonnegative[OF h(2)] r1 c
  have "\<exists>obs x fid y. step_result (sync_round1 (Some [([0], 1, 5)])) = Some obs
          \<and> (x, fid, y) \<in> set obs
          \<and> bias_constant ?end = 12 / 10 * (y - fst (posterior
                 (belief (sync_round1 (Some [([0], 1, 5)])))
                 (wrap (num_of_fidelities (plus3_after 0)) (fid + 1)) x))"
    by blast
  then have 2: "\<exists>obs x fid y. step_result (sync_round1 (Some [([0], 1, 5)])) = Some obs
          \<and> (x, fid, y) \<in> set obs \<and> 6 = 12 / 10 * (y - fst (posterior gp3 (nat (fid + 1)) x))"
    by (simp add: sync_round1_def plus3_defs wrap_def)
  from h(1) r b 1 2 show ?thesis by (simp add: state_after_def)
qed

lemma init_controller_Y_length:
  "init_controller v env bt ths b cb ib ll it = Inr st
     \<Longrightarrow> length (Y_obs st) = env_num_of_fidelities env"
  by (auto simp: init_controller_def Let_def split: if_splits option.splits sum.splits)

text \<open>
  C6, with the initial value counted in. For \<^verbatim>\<open>mfLiveBatch\<close> and \<^verbatim>\<open>mfUCBPlus\<close>, after any
  number of calls of \<^verbatim>\<open>optim_loop\<close> on a freshly built controller, \<^verbatim>\<open>max_value[f]\<close> is the
  largest of 0 and the values stored in \<^verbatim>\<open>self.Y[f]\<close>, for every fidelity \<open>f\<close>; and further
  calls do not decrease any entry.
\<close>

theorem C6_max_value_is_max_of_zero_and_observed:
  assumes "init_controller v env bt ths b cb ib ll it = Inr st0" "v \<noteq> MfUCB"
    and "optim_loops v st0 inps = Some (Inr (st, bs))"
  shows "length (max_value st) = env_num_of_fidelities env
       \<and> length (Y_obs st) = env_num_of_fidelities env
       \<and> (\<forall>f<env_num_of_fidelities env. max_value st ! f = Max (insert 0 (set (Y_obs st ! f))))
       \<and> (\<forall>more st' bs'. optim_loops v st more = Some (Inr (st', bs'))
             \<longrightarrow> (\<forall>f<env_num_of_fidelities env. max_value st ! f \<le> max_value st' ! f))"
proof -
  note i = init_controller_max_value[OF assms(1)]
  note a = optim_loops_max_value[OF assms(3,2) i]
  from a init_controller_Y_length[OF assms(1)]
  have l: "length (Y_obs st) = env_num_of_fidelities env" by simp
  from a have m: "max_value st = map max_of_zero_and (Y_obs st)"
    by (simp add: max_value_recorded_def)
  then have lm: "length (max_value st) = env_num_of_fidelities env" using l by simp
  have v: "\<forall>f<env_num_of_fidelities env. max_value st ! f = Max (insert 0 (set (Y_obs st ! f)))"
    using l by (simp add: m max_of_zero_and_def)
  have "\<forall>more st' bs'. optim_loops v st more = Some (Inr (st', bs'))
             \<longrightarrow> (\<forall>f<env_num_of_fidelities env. max_value st ! f \<le> max_value st' ! f)"
  proof (intro allI impI)
    fix more st' bs' f
    assume r: "optim_loops v st more = Some (Inr (st', bs'))" and f: "f < env_num_of_fidelities env"
    from a have "max_value_recorded st" by simp
    from optim_loops_max_value[OF r assms(2) this] f lm
    show "max_value st ! f \<le> max_value st' ! f" by simp
  qed
  with lm l v show ?thesis by blast
qed

text \<open>
  C6, as stated, fails. In the first call of \<^verbatim>\<open>mfLiveBatch\<close> all four observations, at
  fidelity 2, have the value -3: their running maximum is -3, and \<^verbatim>\<open>max_value[2]\<close> is 0.
\<close>

theorem C6_all_negative_observations_counterexample:
  "init_controller MfLiveBatch env3 (Some 2) (Some [1 / 10, 1, 1 / 10]) 10 4 (1 / 10) True False
     = Inr st3
   \<and> optim_loop MfLiveBatch st3 round0_negative
       = Some (Inr (st3_after_all\<lparr>max_value := [0, 0, 0], Y_obs := [[], [], [- 3, - 3, - 3, - 3]]\<rparr>,
                    [([1 / 4], 2), ([1 / 2], 2), ([3 / 4], 2), ([1], 2)]))
   \<and> Max (set [- 3, - 3, - 3, - 3 :: real]) = - 3"
proof -
  have "optim_loop MfLiveBatch st3 round0_negative
       = Some (Inr (st3_after_all\<lparr>max_value := [0, 0, 0], Y_obs := [[], [], [- 3, - 3, - 3, - 3]]\<rparr>,
                    [([1 / 4], 2), ([1 / 2], 2), ([3 / 4], 2), ([1], 2)]))"
    by (simp add: round0_negative_def round0_all_def loop_defs cold_oracle_def st3_def
          st3_after_all_def gp3_def idx_defs optimise_af_def ingest_defs upt_0_3 upt_0_2
          del: upt_Suc)
  with st3_constructed show ?thesis by simp
qed

theorem C6_max_value_is_max_of_zero_and_observed_witness:
  "init_controller MfLiveBatch env3 (Some 2) (Some [1 / 10, 1, 1 / 10]) 10 4 (1 / 10) True False
     = Inr st3
   \<and> optim_loops MfLiveBatch st3 [round0_all]
       = Some (Inr (st3_after_all, [[([1 / 4], 2), ([1 / 2], 2), ([3 / 4], 2), ([1], 2)]]))
   \<and> Y_obs st3_after_all ! 2 = [1, 1, 1, 1]
   \<and> max_value st3_after_all ! 2 = Max (insert 0 (set (Y_obs st3_after_all ! 2)))
   \<and> max_value st3_after_all ! 2 = 1
   \<and> max_value st3_after_all ! 2 \<le> max_value (st3_loop_end\<lparr>current_time := 2\<rparr>) ! 2"
proof -
  have r: "optim_loops MfLiveBatch st3 [round0_all]
       = Some (Inr (st3_after_all, [[([1 / 4], 2), ([1 / 2], 2), ([3 / 4], 2), ([1], 2)]]))"
    by (simp add: first_call_all)
  have r2: "optim_loops MfLiveBatch st3_after_all [round1]
       = Some (Inr (st3_loop_end\<lparr>current_time := 2\<rparr>, [[([1], 2), ([0], 0)]]))"
    by (simp add: second_call_all)
  have n: "(2::nat) < env_num_of_fidelities env3" by (simp add: env3_def)
  note c = C6_max_value_is_max_of_zero_and_observed[OF st3_constructed _ r, simplified]
  from c n have 1: "max_value st3_after_all ! 2 = Max (insert 0 (set (Y_obs st3_after_all ! 2)))"
    by blast
  from c n r2 have 2: "max_value st3_after_all ! 2 \<le> max_value (st3_loop_end\<lparr>current_time := 2\<rparr>) ! 2"
    by blast
  have 3: "Y_obs st3_after_all ! 2 = [1, 1, 1, 1]" "max_value st3_after_all ! 2 = 1"
    by (simp_all add: st3_defs)
  from st3_constructed r 1 2 3 show ?thesis by simp
qed

section \<open>The synchronous variants: fillers, cold start, the \<^verbatim>\<open>beta\<close> update\<close>

lemma fill_randomly_spec:
  "fill_randomly B c m bc ds = Some (qs, bc') \<Longrightarrow>
     \<exists>k\<le>length ds. qs = map (\<lambda>x. (x, m)) (take k ds) \<and> bc' = bc + int k * c \<and> B \<le> bc'
        \<and> (0 < k \<longrightarrow> bc' - c < B)"
proof (induction ds arbitrary: bc qs)
  case Nil
  then show ?case by (auto split: if_splits)
next
  case (Cons x rest)
  show ?case
  proof (cases "bc < B")
    case False
    with Cons.prems show ?thesis by (intro exI[of _ 0]) auto
  next
    case True
    with Cons.prems obtain qs' where
      r: "fill_randomly B c m (bc + c) rest = Some (qs', bc')" and q: "qs = (x, m) # qs'"
      by (auto split: option.splits)
    from Cons.IH[OF r] obtain k where k: "k \<le> length rest" "qs' = map (\<lambda>x. (x, m)) (take k rest)"
      "bc' = bc + c + int k * c" "B \<le> bc'" "0 < k \<longrightarrow> bc' - c < B" by blast
    show ?thesis
    proof (intro exI[of _ "Suc k"] conjI impI)
      show "Suc k \<le> length (x # rest)" using k(1) by simp
      show "qs = map (\<lambda>x. (x, m)) (take (Suc k) (x # rest))" using q k(2) by simp
      show "bc' = bc + int (Suc k) * c" using k(3) by (simp add: algebra_simps)
      show "B \<le> bc'" by (rule k(4))
      show "bc' - c < B" using k(3,5) True by (cases k) auto
    qed
  qed
qed

lemma fill_randomly_returns:
  "0 < c \<Longrightarrow> nat (B - bc) \<le> length ds \<Longrightarrow> fill_randomly B c m bc ds \<noteq> None"
proof (induction ds arbitrary: bc)
  case Nil
  then show ?case by simp
next
  case (Cons x rest)
  show ?case
  proof (cases "bc < B")
    case False
    then show ?thesis by simp
  next
    case True
    with Cons.prems have "nat (B - (bc + c)) \<le> length rest" by simp
    from Cons.IH[OF Cons.prems(1) this] True show ?thesis by (auto split: option.splits)
  qed
qed

lemma fill_sync_spec:
  assumes "fill_sync v gp st orc ds = Some (Inr (st', qs))" "\<not> query_being_evaluated st"
  shows "\<exists>new_X new_M st1 k. optimise_af v gp st orc = Inr ((new_X, new_M), st1)
           \<and> k \<le> length ds \<and> qs = (new_X, new_M) # map (\<lambda>x. (x, new_M)) (take k ds)
           \<and> cost_budget st
               \<le> batch_costs st + (1 + int k) * query_cost (fidelity_costs st) (new_X, new_M)
           \<and> (0 < k \<longrightarrow> batch_costs st + int k * query_cost (fidelity_costs st) (new_X, new_M)
                          < cost_budget st)"
proof -
  from assms obtain new_X new_M st1 c fs bc where
    o: "optimise_af v gp st orc = Inr ((new_X, new_M), st1)"
    and g: "py_get (fidelity_costs st1) new_M = Inr c"
    and f: "fill_randomly (cost_budget st1) c new_M (batch_costs st1 + c) ds = Some (fs, bc)"
    and q: "qs = (new_X, new_M) # fs"
    by (auto simp: fill_sync_def split: sum.splits if_splits option.splits prod.splits)
  from optimise_af_frame[OF o] obtain ths cl where
    st1: "st1 = st\<lparr>fidelity_thresholds := ths, fidelity_count_list := cl\<rparr>" by blast
  from g have c: "c = query_cost (fidelity_costs st) (new_X, new_M)"
    by (auto simp: py_get_def query_cost_def st1 split: if_splits)
  from fill_randomly_spec[OF f] obtain k where
    k: "k \<le> length ds" "fs = map (\<lambda>x. (x, new_M)) (take k ds)"
       "bc = batch_costs st1 + c + int k * c" "cost_budget st1 \<le> bc"
       "0 < k \<longrightarrow> bc - c < cost_budget st1" by blast
  show ?thesis
  proof (intro exI[of _ new_X] exI[of _ new_M] exI[of _ st1] exI[of _ k] conjI impI)
    show "optimise_af v gp st orc = Inr ((new_X, new_M), st1)" by (rule o)
    show "k \<le> length ds" by (rule k(1))
    show "qs = (new_X, new_M) # map (\<lambda>x. (x, new_M)) (take k ds)" using q k(2) by simp
    show "cost_budget st
               \<le> batch_costs st + (1 + int k) * query_cost (fidelity_costs st) (new_X, new_M)"
      using k(3,4) c by (simp add: st1 algebra_simps)
    assume "0 < k"
    with k(3,5) c
    show "batch_costs st + int k * query_cost (fidelity_costs st) (new_X, new_M) < cost_budget st"
      by (simp add: st1 algebra_simps)
  qed
qed

lemma fill_sync_returns:
  assumes "\<forall>c\<in>set (fidelity_costs st). 0 < c"
    "nat (cost_budget st - batch_costs st) \<le> Suc (length ds)"
  shows "fill_sync v gp st orc ds \<noteq> None"
proof (cases "optimise_af v gp st orc")
  case (Inl e)
  then show ?thesis by (simp add: fill_sync_def)
next
  case (Inr r)
  obtain new_X new_M st1 where r: "r = ((new_X, new_M), st1)" by (cases r) auto
  from optimise_af_frame[OF Inr[unfolded r]] obtain ths cl where
    st1: "st1 = st\<lparr>fidelity_thresholds := ths, fidelity_count_list := cl\<rparr>" by blast
  show ?thesis
  proof (cases "py_get (fidelity_costs st1) new_M")
    case (Inl e)
    with Inr r show ?thesis by (simp add: fill_sync_def)
  next
    case c: (Inr c)
    then have "c \<in> set (fidelity_costs st)"
      by (auto simp: py_get_def st1 in_range_def wrap_def split: if_splits)
    with assms(1) have pos: "0 < c" by blast
    with assms(2) have "nat (cost_budget st1 - (batch_costs st1 + c)) \<le> length ds"
      by (simp add: st1)
    from fill_randomly_returns[OF pos this]
    have "fill_randomly (cost_budget st1) c new_M (batch_costs st1 + c) ds \<noteq> None" .
    with Inr r c show ?thesis by (auto simp: fill_sync_def split: option.splits)
  qed
qed

text \<open>
  C3, as the code has it. A call of \<^verbatim>\<open>mfUCB.optim_loop\<close> or \<^verbatim>\<open>mfUCBPlus.optim_loop\<close> that
  finds \<^verbatim>\<open>query_being_evaluated\<close> False submits the primary query \<^verbatim>\<open>(new_X, new_M)\<close> that
  \<^verbatim>\<open>optimise_af\<close> returns (called after the \<^verbatim>\<open>beta\<close> update) followed by \<open>k\<close> uniform draws,
  every one of them at the fidelity \<^verbatim>\<open>new_M\<close> of the primary query, where \<open>k\<close> is the least
  number that brings the batch cost up to \<^verbatim>\<open>cost_budget\<close>. In the first call
  (\<^verbatim>\<open>current_time = 0\<close>) that fidelity is the cheapest one. With positive costs the filler
  loop ends, and \<^verbatim>\<open>cost_budget - batch_costs - 1\<close> draws are enough for it.
\<close>

theorem C3_fillers_take_the_fidelity_of_the_primary_query:
  assumes "v \<noteq> MfLiveBatch" "\<not> query_being_evaluated st"
  shows "(\<forall>st' qs. optim_loop v st inp = Some (Inr (st', qs)) \<longrightarrow>
            (\<exists>st0 orc rest new_X new_M st1 k.
                update_beta v st = Inr st0 \<and> oracles inp = orc # rest
              \<and> optimise_af v (belief inp) st0 orc = Inr ((new_X, new_M), st1)
              \<and> k \<le> length (draws inp)
              \<and> qs = (new_X, new_M) # map (\<lambda>x. (x, new_M)) (take k (draws inp))
              \<and> cost_budget st
                  \<le> batch_costs st + (1 + int k) * query_cost (fidelity_costs st) (new_X, new_M)
              \<and> (0 < k \<longrightarrow>
                    batch_costs st + int k * query_cost (fidelity_costs st) (new_X, new_M)
                      < cost_budget st)
              \<and> (current_time st = 0 \<longrightarrow> new_M = int (num_of_fidelities st) - 1)))
       \<and> (oracles inp \<noteq> [] \<and> (\<forall>c\<in>set (fidelity_costs st). 0 < c)
            \<and> nat (cost_budget st - batch_costs st) \<le> Suc (length (draws inp))
          \<longrightarrow> optim_loop v st inp \<noteq> None)"
proof (intro conjI allI impI)
  fix st' qs
  assume r: "optim_loop v st inp = Some (Inr (st', qs))"
  with assms(1) obtain st0 orc rest st2 where
    b: "update_beta v st = Inr st0" and o: "oracles inp = orc # rest"
    and f: "fill_sync v (belief inp) st0 orc (draws inp) = Some (Inr (st2, qs))"
    by (auto simp: optim_loop_def optim_loop_sync_def split: sum.splits option.splits list.splits)
  from update_beta_frame[OF b] obtain bt where st0: "st0 = st\<lparr>beta := bt\<rparr>" by blast
  from assms(2) have "\<not> query_being_evaluated st0" by (simp add: st0)
  from fill_sync_spec[OF f this] obtain new_X new_M st1 k where
    s: "optimise_af v (belief inp) st0 orc = Inr ((new_X, new_M), st1)"
       "k \<le> length (draws inp)"
       "qs = (new_X, new_M) # map (\<lambda>x. (x, new_M)) (take k (draws inp))"
       "cost_budget st0
             \<le> batch_costs st0 + (1 + int k) * query_cost (fidelity_costs st0) (new_X, new_M)"
       "0 < k \<longrightarrow> batch_costs st0 + int k * query_cost (fidelity_costs st0) (new_X, new_M)
                        < cost_budget st0" by blast
  have t: "current_time st = 0 \<longrightarrow> new_M = int (num_of_fidelities st) - 1"
    using s(1) by (auto simp: optimise_af_def st0)
  from s(4,5) have c:
    "cost_budget st
       \<le> batch_costs st + (1 + int k) * query_cost (fidelity_costs st) (new_X, new_M)"
    "0 < k \<longrightarrow> batch_costs st + int k * query_cost (fidelity_costs st) (new_X, new_M)
                   < cost_budget st"
    by (simp_all add: st0)
  from b o s(1,2,3) c t
  show "\<exists>st0 orc rest new_X new_M st1 k.
                update_beta v st = Inr st0 \<and> oracles inp = orc # rest
              \<and> optimise_af v (belief inp) st0 orc = Inr ((new_X, new_M), st1)
              \<and> k \<le> length (draws inp)
              \<and> qs = (new_X, new_M) # map (\<lambda>x. (x, new_M)) (take k (draws inp))
              \<and> cost_budget st
                  \<le> batch_costs st + (1 + int k) * query_cost (fidelity_costs st) (new_X, new_M)
              \<and> (0 < k \<longrightarrow>
                    batch_costs st + int k * query_cost (fidelity_costs st) (new_X, new_M)
                      < cost_budget st)
              \<and> (current_time st = 0 \<longrightarrow> new_M = int (num_of_fidelities st) - 1)"
    by blast
next
  assume a: "oracles inp \<noteq> [] \<and> (\<forall>c\<in>set (fidelity_costs st). 0 < c)
            \<and> nat (cost_budget st - batch_costs st) \<le> Suc (length (draws inp))"
  show "optim_loop v st inp \<noteq> None"
  proof (cases "update_beta v st")
    case (Inl e)
    with assms(1) show ?thesis by (simp add: optim_loop_def optim_loop_sync_def)
  next
    case (Inr st0)
    from update_beta_frame[OF Inr] obtain bt where st0: "st0 = st\<lparr>beta := bt\<rparr>" by blast
    from a obtain orc rest where o: "oracles inp = orc # rest" by (cases "oracles inp") auto
    from a have "\<forall>c\<in>set (fidelity_costs st0). 0 < c"
      "nat (cost_budget st0 - batch_costs st0) \<le> Suc (length (draws inp))"
      by (simp_all add: st0)
    from fill_sync_returns[OF this]
    have "fill_sync v (belief inp) st0 orc (draws inp) \<noteq> None" .
    with assms(1) Inr o show ?thesis
      by (auto simp: optim_loop_def optim_loop_sync_def split: option.splits sum.splits)
  qed
qed

text \<open>
  C3, as stated, fails. \<^verbatim>\<open>mfUCBPlus\<close> with three fidelities, built with \<^verbatim>\<open>beta = 2\<close> and
  the defaults otherwise: in the second call the primary query goes to fidelity 1 and so
  does the filler, the uniform draw 0.2; the cheapest fidelity is 2.
\<close>

theorem C3_filler_not_at_cheapest_fidelity_counterexample:
  "init_controller MfUCBPlus env3 (Some 2) None 10 4 0 True False = Inr (plus3 0)
   \<and> num_of_fidelities (plus3 0) = 3
   \<and> draws (sync_round1 None) = [[1 / 5]]
   \<and> dispatched (optim_loops MfUCBPlus (plus3 0) [sync_round0, sync_round1 None])
       = Some [[([1 / 4], 2), ([1 / 2], 2), ([3 / 4], 2), ([1], 2)], [([0], 1), ([1 / 5], 1)]]"
proof -
  have "num_of_fidelities (plus3 0) = 3" by (simp add: plus3_def st3_def)
  moreover have "draws (sync_round1 None) = [[1 / 5]]" by (simp add: sync_round1_def)
  moreover have "dispatched (optim_loops MfUCBPlus (plus3 0) [sync_round0, sync_round1 None])
       = Some [[([1 / 4], 2), ([1 / 2], 2), ([3 / 4], 2), ([1], 2)], [([0], 1), ([1 / 5], 1)]]"
    by (simp add: sync_first_call sync_second_call_none dispatched_def)
  ultimately show ?thesis using plus3_constructed[of 0] by simp
qed

theorem C3_fillers_take_the_fidelity_of_the_primary_query_witness:
  "MfUCBPlus \<noteq> MfLiveBatch \<and> \<not> query_being_evaluated (plus3_after 0)
   \<and> optim_loop MfUCBPlus (plus3_after 0) (sync_round1 None)
       = Some (Inr (plus3_after 0\<lparr>fidelity_count_list := [0, 1, 0], batch_costs := 4,
                                    query_being_evaluated := True, current_time := 2\<rparr>,
                    [([0], 1), ([1 / 5], 1)]))
   \<and> (\<exists>orc rest new_X new_M st1 k. oracles (sync_round1 None) = orc # rest
         \<and> optimise_af MfUCBPlus gp3 (plus3_after 0) orc = Inr ((new_X, new_M), st1)
         \<and> k \<le> length (draws (sync_round1 None))
         \<and> [([0], 1), ([1 / 5], 1)]
             = (new_X, new_M) # map (\<lambda>x. (x, new_M)) (take k (draws (sync_round1 None))))
   \<and> \<not> query_being_evaluated (plus3 0)
   \<and> oracles sync_round0 \<noteq> [] \<and> fidelity_costs (plus3 0) = [4, 2, 1]
   \<and> nat (cost_budget (plus3 0) - batch_costs (plus3 0)) \<le> Suc (length (draws sync_round0))
   \<and> optim_loop MfUCBPlus (plus3 0) sync_round0 \<noteq> None"
proof -
  have v: "MfUCBPlus \<noteq> MfLiveBatch" by simp
  have q: "\<not> query_being_evaluated (plus3_after 0)" "\<not> query_being_evaluated (plus3 0)"
    by (simp_all add: plus3_defs)
  have u: "update_beta MfUCBPlus (plus3_after 0) = Inr (plus3_after 0)"
    "belief (sync_round1 None) = gp3"
    by (simp_all add: update_beta_def plus3_defs sync_round1_def)
  note e = C3_fillers_take_the_fidelity_of_the_primary_query[OF v q(1), of "sync_round1 None",
      THEN conjunct1, rule_format, OF sync_second_call_none[of 0]]
  from e obtain st0 orc rest new_X new_M st1 k where
    w: "update_beta MfUCBPlus (plus3_after 0) = Inr st0"
       "oracles (sync_round1 None) = orc # rest"
       "optimise_af MfUCBPlus (belief (sync_round1 None)) st0 orc = Inr ((new_X, new_M), st1)"
       "k \<le> length (draws (sync_round1 None))"
       "[([0], 1), ([1 / 5], 1)]
             = (new_X, new_M) # map (\<lambda>x. (x, new_M)) (take k (draws (sync_round1 None)))"
    by (elim exE conjE) (rule that, assumption+)
  from w(1) u(1) have "st0 = plus3_after 0" by simp
  with w(3) u(2) have "optimise_af MfUCBPlus gp3 (plus3_after 0) orc = Inr ((new_X, new_M), st1)"
    by simp
  with w(2,4,5) have 1: "\<exists>orc rest new_X new_M st1 k. oracles (sync_round1 None) = orc # rest
         \<and> optimise_af MfUCBPlus gp3 (plus3_after 0) orc = Inr ((new_X, new_M), st1)
         \<and> k \<le> length (draws (sync_round1 None))
         \<and> [([0], 1), ([1 / 5], 1)]
             = (new_X, new_M) # map (\<lambda>x. (x, new_M)) (take k (draws (sync_round1 None)))"
    by (intro exI conjI) assumption+
  have h: "oracles sync_round0 \<noteq> []" "\<forall>c\<in>set (fidelity_costs (plus3 0)). 0 < c"
    "nat (cost_budget (plus3 0) - batch_costs (plus3 0)) \<le> Suc (length (draws sync_round0))"
    by (simp_all add: sync_round0_def plus3_defs)
  from C3_fillers_take_the_fidelity_of_the_primary_query[OF v q(2), of sync_round0] h
  have 2: "optim_loop MfUCBPlus (plus3 0) sync_round0 \<noteq> None" by blast
  have c: "fidelity_costs (plus3 0) = [4, 2, 1]" by (simp add: plus3_defs)
  from v q 1 h(1,3) c 2 sync_second_call_none[of 0] show ?thesis by blast
qed

text \<open>
  C9. At \<^verbatim>\<open>current_time == 0\<close> the method \<^verbatim>\<open>optimise_af\<close> of \<^verbatim>\<open>mfLiveBatch\<close>, \<^verbatim>\<open>mfUCB\<close> and
  \<^verbatim>\<open>mfUCBPlus\<close> returns the uniform draw together with the fidelity
  \<^verbatim>\<open>num_of_fidelities - 1\<close> and leaves the controller as it is, whatever the engine, the
  grid-search flag and the candidates are; \<^verbatim>\<open>MF_TuRBO.optimise_af\<close> returns the same pair
  instead of the generated one.
\<close>

theorem C9_cold_start_uniform_point_at_cheapest_fidelity:
  assumes "current_time st = 0"
  shows "optimise_af v gp st orc = Inr ((uniform_point orc, int (num_of_fidelities st) - 1), st)
       \<and> MF_TuRBO_optimise_af (current_time st) F u generated = (u, int F - 1)"
  using assms by (simp add: optimise_af_def MF_TuRBO_optimise_af_def)

theorem C9_cold_start_uniform_point_at_cheapest_fidelity_witness:
  "current_time (st3\<lparr>grid_search := True\<rparr>) = 0
   \<and> optimise_af MfUCB gp3 (st3\<lparr>grid_search := True\<rparr>)
        \<lparr> uniform_point = [1 / 3], candidates = [[1]], optimised = [1] \<rparr>
       = Inr (([1 / 3], 2), st3\<lparr>grid_search := True\<rparr>)
   \<and> MF_TuRBO_optimise_af (current_time (st3\<lparr>grid_search := True\<rparr>)) 3 [1 / 3] ([1], 0)
       = ([1 / 3], 2)"
proof -
  have h: "current_time (st3\<lparr>grid_search := True\<rparr>) = 0" by (simp add: st3_def)
  have n: "num_of_fidelities (st3\<lparr>grid_search := True\<rparr>) = 3" by (simp add: st3_def)
  from C9_cold_start_uniform_point_at_cheapest_fidelity[OF h, of MfUCB gp3
         "\<lparr> uniform_point = [1 / 3], candidates = [[1]], optimised = [1] \<rparr>" 3 "[1 / 3]" "([1], 0)"]
    h n show ?thesis by simp
qed

text \<open>
  C10. An \<^verbatim>\<open>mfUCBPlus\<close> controller built with \<^verbatim>\<open>beta = None\<close> has \<^verbatim>\<open>fixed_beta = False\<close>;
  every call of its \<^verbatim>\<open>optim_loop\<close>, whatever the environment and the engine provide,
  raises \<^verbatim>\<open>TypeError\<close> in the \<^verbatim>\<open>beta\<close> update, the first statement of the method, so that no
  batch is submitted and no run of one or more calls completes.
\<close>

theorem C10_mfUCBPlus_default_beta_raises_TypeError:
  assumes "init_controller MfUCBPlus env None ths b cb ib ll it = Inr st"
  shows "\<not> fixed_beta st
       \<and> update_beta MfUCBPlus st = Inl TypeError
       \<and> optim_loop MfUCBPlus st inp = Some (Inl TypeError)
       \<and> optim_loops MfUCBPlus st (inp # inps) = Some (Inl TypeError)"
proof -
  from assms have f: "\<not> fixed_beta st"
    by (auto simp: init_controller_def Let_def split: if_splits sum.splits)
  then have u: "update_beta MfUCBPlus st = Inl TypeError" by (simp add: update_beta_def)
  then have "optim_loop MfUCBPlus st inp = Some (Inl TypeError)"
    by (simp add: optim_loop_def optim_loop_sync_def)
  with f u show ?thesis by simp
qed

theorem C10_mfUCBPlus_default_beta_raises_TypeError_witness:
  "\<exists>st. init_controller MfUCBPlus env3 None None 10 4 0 True False = Inr st
        \<and> beta st = [Num (ln 2 / 5), Num (ln 2 / 5), Num (ln 2 / 5)]
        \<and> optim_loop MfUCBPlus st sync_round0 = Some (Inl TypeError)"
proof -
  have "\<exists>st. init_controller MfUCBPlus env3 None None 10 4 0 True False = Inr st
           \<and> beta st = [Num (ln 2 / 5), Num (ln 2 / 5), Num (ln 2 / 5)]"
    by (simp add: init_controller_def init_cost_thresholds_def cost_ratio_def env3_def
          idx_defs Let_def upt_rec numeral_3_eq_3)
  then obtain st where
    i: "init_controller MfUCBPlus env3 None None 10 4 0 True False = Inr st"
    and b: "beta st = [Num (ln 2 / 5), Num (ln 2 / 5), Num (ln 2 / 5)]" by blast
  from C10_mfUCBPlus_default_beta_raises_TypeError[OF i, of sync_round0] i b
  show ?thesis by blast
qed

end
